theory Spec2Isabelle
  imports Complex_Main "HOL-Library.AList"
begin

section \<open>Values, frames and the transport\<close>

text \<open>
  The client (class \<open>WSClient\<close>) is single-threaded and event-driven: every method and
  every callback runs to completion. Each of them is modelled as a function from the state
  before to the result after. What a run reads from outside the client is an argument of
  the function: the value of \<open>Date.now()\<close> (an integer number of milliseconds), the value
  of \<open>Math.random()\<close> (a real number), the identifier returned by \<open>uuid()\<close>, the token
  the provider resolves to, and what \<open>JSON.parse\<close> makes of an inbound frame.
\<close>

text \<open>
  A filter specification has the TypeScript type \<open>any\<close>. \<open>Obj r\<close> is a reference
  to the object at address \<open>r\<close>; the contents of an object are never inspected by the
  client (they only pass through \<open>JSON.stringify\<close>), so they are not part of the value.
  \<open>Num\<close> holds a finite number, \<open>NaN\<close> the one number that differs from itself.
\<close>

datatype jsval =
    Undefined
  | Null
  | Bool bool
  | Num real
  | NaN
  | Str string
  | Obj nat

text \<open>The operator \<open>===\<close>: by value on primitives, by reference on objects.\<close>

fun strict_eq :: "jsval \<Rightarrow> jsval \<Rightarrow> bool" where
  "strict_eq NaN _ = False"
| "strict_eq _ NaN = False"
| "strict_eq a b = (a = b)"

text \<open>Truthiness of the optional strings and numbers the client tests with \<open>&&\<close>.\<close>

fun truthy_str :: "string option \<Rightarrow> bool" where
  "truthy_str None = False"
| "truthy_str (Some x) = (x \<noteq> [])"

fun truthy_num :: "int option \<Rightarrow> bool" where
  "truthy_num None = False"
| "truthy_num (Some n) = (n \<noteq> 0)"

text \<open>
  The argument of \<open>JSON.stringify\<close> in each \<open>send\<close>: the fields \<open>i\<close>, \<open>t\<close> and
  \<open>p\<close> of the outbound envelope. The payload is kept as the value handed to the
  serialiser.
\<close>

datatype payload =
    P_channels "string list"
  | P_filter string jsval
  | P_token string
  | P_replay "string list" "string option"
  | P_absent

datatype frame = Frame (frame_i: string) (frame_t: string) (frame_p: payload)

text \<open>
  The inbound envelope, interface \<open>IRTMessage\<close>. The cast after \<open>JSON.parse\<close> checks
  nothing, so a field the peer left out reads as \<open>undefined\<close>: \<open>None\<close>.
\<close>

record IRTMessage =
  msg_i :: "string option"
  msg_t :: "string option"
  msg_c :: "string option"
  msg_p :: jsval

text \<open>
  What \<open>JSON.parse(e.data)\<close> does on the text of a frame: it throws on malformed text,
  it returns \<open>null\<close> on the text \<open>null\<close> (and reading a property of \<open>null\<close> throws),
  or it returns a value whose fields are read.
\<close>

datatype parse_result = Malformed | Parsed_null | Parsed IRTMessage

text \<open>
  The \<open>data\<close> of the event a listener receives: a string, or anything else (a binary
  buffer; \<open>undefined\<close> for an event that is not a message). Each carries what
  \<open>JSON.parse\<close> does when it is applied to the data.
\<close>

datatype event_data = String_data parse_result | Other_data parse_result

datatype error = SyntaxError | TypeError | NotOpenError | UnhandledError

datatype ready_state = CONNECTING | OPEN | CLOSING | CLOSED

datatype event_name = Ev_open | Ev_close | Ev_message | Ev_error

text \<open>
  The callbacks the client registers on a socket. \<open>OnMsg authId prev\<close> is the closure
  \<open>onMsg\<close> of \<open>onOpen\<close>, with the two variables it captures.
\<close>

datatype listener =
    OnOpen
  | OnClose
  | OnMessage
  | RetryConnection
  | OnMsg string "int option"

record socket =
  readyState :: ready_state
  listeners :: "(event_name \<times> listener) list"
  sent :: "frame list"

datatype timer_callback = Reconnect_callback | Monitor_callback

datatype log_line = Will_replay | No_replay "int option" | Closing_stalled

section \<open>The state of the client and of its surroundings\<close>

text \<open>
  The first ten fields are the fields of \<open>WSClient\<close>. A socket or timer handle is the
  index of the socket in \<open>sockets\<close>, or the number of the timer. \<open>channels\<close> is a
  \<open>Set\<close> and \<open>filters\<close> a \<open>Map\<close>: both iterate in insertion order, so they are
  lists. The remaining fields are what the client acts on: the sockets created so far,
  the timers that are pending (handle, callback, delay in milliseconds), the calls of
  \<open>onOpen\<close> suspended at \<open>await\<close> (each with its \<open>prevLastConnected\<close>), the messages
  emitted to the application, and the console.
\<close>

record state =
  ws :: "nat option"
  lastPing :: "int option"
  monitorInterval :: "nat option"
  reconnectTimeout :: "nat option"
  lastMessage :: "string option"
  lastConnected :: "int option"
  channels :: "string list"
  filters :: "(string \<times> jsval) list"
  retryDelay :: int
  replayMaxTime :: int
  sockets :: "socket list"
  timers :: "(nat \<times> timer_callback \<times> int) list"
  timer_count :: nat
  suspended :: "int option list"
  emitted :: "IRTMessage list"
  console :: "log_line list"

text \<open>A result: the state after a normal return, or the error thrown and the state left.\<close>

type_synonym result = "(error \<times> state) + state"

definition constructor :: "int \<Rightarrow> state" where
  "constructor replayMax =
     \<lparr> ws = None, lastPing = None, monitorInterval = None, reconnectTimeout = None,
       lastMessage = None, lastConnected = None, channels = [], filters = [],
       retryDelay = 0, replayMaxTime = replayMax,
       sockets = [], timers = [], timer_count = 0, suspended = [], emitted = [],
       console = [] \<rparr>"

subsection \<open>Sets and maps of the language\<close>

definition set_add :: "string \<Rightarrow> string list \<Rightarrow> string list" where
  "set_add x xs = (if x \<in> set xs then xs else xs @ [x])"

definition set_delete :: "string \<Rightarrow> string list \<Rightarrow> string list" where
  "set_delete x xs = removeAll x xs"

definition map_get :: "(string \<times> jsval) list \<Rightarrow> string \<Rightarrow> jsval" where
  "map_get m k = (case map_of m k of None \<Rightarrow> Undefined | Some v \<Rightarrow> v)"

definition map_set :: "string \<Rightarrow> jsval \<Rightarrow> (string \<times> jsval) list \<Rightarrow> (string \<times> jsval) list" where
  "map_set k v m = AList.update k v m"

subsection \<open>The transport\<close>

definition socket_at :: "state \<Rightarrow> nat \<Rightarrow> socket option" where
  "socket_at s k = (if k < length (sockets s) then Some (sockets s ! k) else None)"

text \<open>The test \<open>this.ws && this.ws.readyState === WebSocket.OPEN\<close>.\<close>

definition ws_is_open :: "state \<Rightarrow> bool" where
  "ws_is_open s =
     (case ws s of
        None \<Rightarrow> False
      | Some k \<Rightarrow> (case socket_at s k of None \<Rightarrow> False | Some sk \<Rightarrow> readyState sk = OPEN))"

text \<open>The frames sent so far on the socket the client holds.\<close>

definition outbox :: "state \<Rightarrow> frame list" where
  "outbox s =
     (case ws s of
        None \<Rightarrow> []
      | Some k \<Rightarrow> (case socket_at s k of None \<Rightarrow> [] | Some sk \<Rightarrow> sent sk))"

text \<open>
  \<open>this.ws.send(JSON.stringify(f))\<close>. Reading \<open>send\<close> of \<open>undefined\<close> throws. The
  socket of the \<open>ws\<close> package throws while it is connecting, transmits when it is open,
  and drops the data once it is closing or closed.
\<close>

definition ws_send :: "frame \<Rightarrow> state \<Rightarrow> result" where
  "ws_send f s =
     (case ws s of
        None \<Rightarrow> Inl (TypeError, s)
      | Some k \<Rightarrow>
          (case socket_at s k of
             None \<Rightarrow> Inl (TypeError, s)
           | Some sk \<Rightarrow>
               (case readyState sk of
                  CONNECTING \<Rightarrow> Inl (NotOpenError, s)
                | OPEN \<Rightarrow> Inr (s\<lparr>sockets := (sockets s)[k := sk\<lparr>sent := sent sk @ [f]\<rparr>]\<rparr>)
                | CLOSING \<Rightarrow> Inr s
                | CLOSED \<Rightarrow> Inr s)))"

section \<open>The subscription registry\<close>

definition join :: "string \<Rightarrow> string \<Rightarrow> state \<Rightarrow> result" where
  "join uuid channel s =
     (if channel \<in> set (channels s) then Inr s
      else
        let s1 = s\<lparr>channels := set_add channel (channels s)\<rparr>
        in if ws_is_open s1 then ws_send (Frame uuid ''join'' (P_channels [channel])) s1
           else Inr s1)"

definition leave :: "string \<Rightarrow> string \<Rightarrow> state \<Rightarrow> result" where
  "leave uuid channel s =
     (let s1 = s\<lparr>channels := set_delete channel (channels s)\<rparr>
      in if ws_is_open s1 then ws_send (Frame uuid ''leave'' (P_channels [channel])) s1
         else Inr s1)"

definition filter_spec :: "string \<Rightarrow> string \<Rightarrow> jsval \<Rightarrow> state \<Rightarrow> result" where
  "filter_spec uuid type flt s =
     (if strict_eq (map_get (filters s) type) flt then Inr s
      else
        let s1 = s\<lparr>filters := map_set type flt (filters s)\<rparr>
        in if ws_is_open s1 then ws_send (Frame uuid ''filter'' (P_filter type flt)) s1
           else Inr s1)"


section \<open>Timers and listeners\<close>

definition setTimeout :: "timer_callback \<Rightarrow> int \<Rightarrow> state \<Rightarrow> nat \<times> state" where
  "setTimeout cb ms s =
     (timer_count s,
      s\<lparr>timers := timers s @ [(timer_count s, cb, ms)], timer_count := Suc (timer_count s)\<rparr>)"

definition clearTimeout :: "nat \<Rightarrow> state \<Rightarrow> state" where
  "clearTimeout h s = s\<lparr>timers := filter (\<lambda>x. fst x \<noteq> h) (timers s)\<rparr>"

text \<open>In Node \<open>clearInterval\<close> cancels a timer made by \<open>setTimeout\<close> as well.\<close>

definition clearInterval :: "nat \<Rightarrow> state \<Rightarrow> state" where
  "clearInterval h s = clearTimeout h s"

definition update_socket :: "nat \<Rightarrow> (socket \<Rightarrow> socket) \<Rightarrow> state \<Rightarrow> state" where
  "update_socket k f s =
     (case socket_at s k of
        None \<Rightarrow> s
      | Some sk \<Rightarrow> s\<lparr>sockets := (sockets s)[k := f sk]\<rparr>)"

definition addEventListener :: "nat \<Rightarrow> event_name \<Rightarrow> listener \<Rightarrow> state \<Rightarrow> state" where
  "addEventListener k ev l s =
     update_socket k (\<lambda>sk. sk\<lparr>listeners := listeners sk @ [(ev, l)]\<rparr>) s"

definition removeEventListener :: "nat \<Rightarrow> event_name \<Rightarrow> listener \<Rightarrow> state \<Rightarrow> state" where
  "removeEventListener k ev l s =
     update_socket k (\<lambda>sk. sk\<lparr>listeners := remove1 (ev, l) (listeners sk)\<rparr>) s"

text \<open>
  The method \<open>close()\<close> of the socket: a socket that is not yet closed starts closing.
\<close>

definition socket_close :: "nat \<Rightarrow> state \<Rightarrow> state" where
  "socket_close k s =
     update_socket k
       (\<lambda>sk. sk\<lparr>readyState := (if readyState sk = CLOSED then CLOSED else CLOSING)\<rparr>) s"

section \<open>Products of double-precision numbers\<close>

text \<open>
  The numbers of the language are IEEE 754 double-precision numbers. A finite double is
  modelled by its real value. The product of two doubles is the exact product rounded to
  the nearest double, ties to the even significand: \<open>exponent x\<close> is the binary exponent
  of \<open>x\<close>, not below that of the subnormal numbers, and the doubles around \<open>x\<close> are the
  multiples of \<open>2 powi (exponent x - 52)\<close>. Overflow to infinity (beyond \<open>2 powi 1024\<close>)
  is not modelled.
\<close>

definition round_half_even :: "real \<Rightarrow> int" where
  "round_half_even y =
     (let f = \<lfloor>y\<rfloor>; d = y - of_int f
      in if d < 1/2 then f else if 1/2 < d then f + 1 else if even f then f else f + 1)"

fun exponent_from :: "nat \<Rightarrow> int \<Rightarrow> real \<Rightarrow> int" where
  "exponent_from 0 e x = e"
| "exponent_from (Suc n) e x = (if 2 powi e \<le> x then e else exponent_from n (e - 1) x)"

definition exponent :: "real \<Rightarrow> int" where
  "exponent x = exponent_from 2045 1023 \<bar>x\<bar>"

definition round_double :: "real \<Rightarrow> real" where
  "round_double x =
     (let u = 2 powi (exponent x - 52) in u * of_int (round_half_even (x / u)))"

definition times_double :: "real \<Rightarrow> real \<Rightarrow> real" where
  "times_double a b = round_double (a * b)"

definition is_double :: "real \<Rightarrow> bool" where
  "is_double x = (round_double x = x)"

section \<open>The connection manager\<close>

definition setupConnection :: "state \<Rightarrow> state" where
  "setupConnection s =
     (let k = length (sockets s);
          s1 = s\<lparr>sockets := sockets s @ [\<lparr>readyState = CONNECTING, listeners = [], sent = []\<rparr>],
                 ws := Some k\<rparr>;
          s2 = addEventListener k Ev_open OnOpen s1;
          s3 = addEventListener k Ev_close OnClose s2;
          s4 = addEventListener k Ev_message OnMessage s3
      in addEventListener k Ev_error RetryConnection s4)"

text \<open>\<open>r\<close> is the value of \<open>Math.random()\<close>, a double.\<close>

definition retryConnection :: "real \<Rightarrow> state \<Rightarrow> state" where
  "retryConnection r s =
     (let s1 = (case reconnectTimeout s of None \<Rightarrow> s | Some h \<Rightarrow> clearTimeout h s);
          (h, s2) = setTimeout Reconnect_callback (retryDelay s1 * 1000) s1;
          s3 = s2\<lparr>reconnectTimeout := Some h\<rparr>
      in s3\<lparr>retryDelay := min 60 (retryDelay s3 + (\<lfloor>times_double r 6\<rfloor> + 5))\<rparr>)"

text \<open>The callback of the timer that \<open>retryConnection\<close> sets.\<close>

definition reconnect_callback :: "state \<Rightarrow> state" where
  "reconnect_callback s = setupConnection (s\<lparr>reconnectTimeout := None\<rparr>)"

definition close :: "state \<Rightarrow> state" where
  "close s =
     (case ws s of
        None \<Rightarrow> s
      | Some k \<Rightarrow>
          let s1 = removeEventListener k Ev_close OnClose s;
              s2 = removeEventListener k Ev_open OnOpen s1;
              s3 = removeEventListener k Ev_message OnMessage s2;
              s4 = removeEventListener k Ev_error RetryConnection s3;
              s5 = socket_close k s4;
              s6 = s5\<lparr>ws := None\<rparr>
          in (case reconnectTimeout s6 of
                None \<Rightarrow> s6
              | Some h \<Rightarrow> (clearTimeout h s6)\<lparr>reconnectTimeout := None\<rparr>))"

definition open_ws :: "state \<Rightarrow> state" where
  "open_ws s =
     (case ws s of
        Some k \<Rightarrow> s
      | None \<Rightarrow>
          let s1 = setupConnection s
          in (case reconnectTimeout s1 of
                None \<Rightarrow> s1
              | Some h \<Rightarrow> (clearTimeout h s1)\<lparr>reconnectTimeout := None\<rparr>))"

definition monitorConnection :: "state \<Rightarrow> state" where
  "monitorConnection s =
     (let s1 = (case monitorInterval s of None \<Rightarrow> s | Some h \<Rightarrow> clearTimeout h s);
          (h, s2) = setTimeout Monitor_callback 30000 s1
      in s2\<lparr>monitorInterval := Some h\<rparr>)"

text \<open>
  The callback of the timer that \<open>monitorConnection\<close> sets; \<open>uuid\<close> is the identifier
  of the ping and \<open>now\<close> the value of \<open>Date.now()\<close>.
\<close>

definition monitor_callback :: "string \<Rightarrow> int \<Rightarrow> state \<Rightarrow> result" where
  "monitor_callback uuid now s =
     (case (if ws_is_open s then ws_send (Frame uuid ''ping'' P_absent) s else Inr s) of
        Inl e \<Rightarrow> Inl e
      | Inr s1 \<Rightarrow>
          let s2 =
                (if truthy_num (lastPing s1)
                    \<and> (case lastPing s1 of None \<Rightarrow> False | Some lp \<Rightarrow> lp < now - 60000)
                 then
                   let s1a = s1\<lparr>console := console s1 @ [Closing_stalled]\<rparr>
                   in if ws_is_open s1a then open_ws (close s1a) else s1a
                 else s1)
          in Inr (monitorConnection s2))"

definition onClose :: "real \<Rightarrow> state \<Rightarrow> state" where
  "onClose r s =
     (let s1 = s\<lparr>ws := None\<rparr>;
          s2 = (case monitorInterval s1 of
                  None \<Rightarrow> s1
                | Some h \<Rightarrow> (clearInterval h s1)\<lparr>monitorInterval := None\<rparr>)
      in retryConnection r s2)"

section \<open>The message dispatcher\<close>

definition onMessage :: "int \<Rightarrow> event_data \<Rightarrow> state \<Rightarrow> result" where
  "onMessage now dat s =
     (let s1 = s\<lparr>lastPing := Some now\<rparr>
      in case dat of
           Other_data _ \<Rightarrow> Inr s1
         | String_data Malformed \<Rightarrow> Inl (SyntaxError, s1)
         | String_data Parsed_null \<Rightarrow> Inl (TypeError, s1)
         | String_data (Parsed msg) \<Rightarrow>
             let s2 = (if truthy_str (msg_i msg) \<and> msg_t msg \<noteq> Some ''error''
                          \<and> msg_t msg \<noteq> Some ''ack''
                       then s1\<lparr>lastMessage := msg_i msg\<rparr> else s1)
             in if msg_t msg = Some ''ack'' then Inr s2
                else Inr (s2\<lparr>emitted := emitted s2 @ [msg]\<rparr>))"

section \<open>Resynchronisation and replay\<close>

text \<open>
  The arrow function \<open>joinRoomsFilter\<close> of \<open>onOpen\<close>. \<open>prev\<close> is the captured
  \<open>prevLastConnected\<close>; \<open>uuid n\<close> is the identifier returned by the \<open>n\<close>-th call of
  \<open>uuid()\<close> in this run; \<open>now\<close> is the value of \<open>Date.now()\<close> in the test and
  \<open>now_log\<close> its value in the diagnostic.
\<close>

fun send_filters :: "(nat \<Rightarrow> string) \<Rightarrow> nat \<Rightarrow> (string \<times> jsval) list \<Rightarrow> state \<Rightarrow> result" where
  "send_filters uuid n [] s = Inr s"
| "send_filters uuid n ((type, flt) # rest) s =
     (case ws_send (Frame (uuid n) ''filter'' (P_filter type flt)) s of
        Inl e \<Rightarrow> Inl e
      | Inr s1 \<Rightarrow> send_filters uuid (Suc n) rest s1)"

text \<open>
  The test \<open>this.lastMessage && prevLastConnected && Date.now() - prevLastConnected <
  this.replayMaxTime\<close>.
\<close>

definition replay_test :: "string option \<Rightarrow> int option \<Rightarrow> int \<Rightarrow> int \<Rightarrow> bool" where
  "replay_test lastMsg prev now maxTime =
     (truthy_str lastMsg \<and> truthy_num prev
      \<and> (case prev of None \<Rightarrow> False | Some p \<Rightarrow> now - p < maxTime))"

definition joinRoomsFilter ::
    "int option \<Rightarrow> (nat \<Rightarrow> string) \<Rightarrow> int \<Rightarrow> int \<Rightarrow> state \<Rightarrow> result" where
  "joinRoomsFilter prev uuid now now_log s =
     (if ws_is_open s then
        case send_filters uuid 0 (filters s) s of
          Inl e \<Rightarrow> Inl e
        | Inr s1 \<Rightarrow>
            (case ws_send (Frame (uuid (length (filters s))) ''join'' (P_channels (channels s1))) s1 of
               Inl e \<Rightarrow> Inl e
             | Inr s2 \<Rightarrow>
                 if replay_test (lastMessage s2) prev now (replayMaxTime s2) then
                   let s3 = s2\<lparr>console := console s2 @ [Will_replay]\<rparr>
                   in ws_send (Frame (uuid (Suc (length (filters s)))) ''replay''
                                (P_replay (channels s3) (lastMessage s3))) s3
                 else
                   Inr (s2\<lparr>console := console s2 @
                          [No_replay (case prev of
                                        None \<Rightarrow> None
                                      | Some p \<Rightarrow> if p \<noteq> 0 then Some (now_log - p) else None)]\<rparr>))
      else Inr s)"

text \<open>
  \<open>onOpen\<close> up to its \<open>await\<close>: \<open>now1\<close> and \<open>now2\<close> are the two values of
  \<open>Date.now()\<close>. If the socket is open, the token is requested and the call is suspended.
\<close>

definition onOpen :: "int \<Rightarrow> int \<Rightarrow> state \<Rightarrow> state" where
  "onOpen now1 now2 s =
     (let prevLastConnected = lastConnected s;
          s1 = s\<lparr>lastConnected := Some now1\<rparr>;
          s2 = s1\<lparr>lastPing := Some now2\<rparr>;
          s3 = s2\<lparr>retryDelay := 0\<rparr>;
          s4 = monitorConnection s3
      in if ws_is_open s4 then s4\<lparr>suspended := suspended s4 @ [prevLastConnected]\<rparr> else s4)"

text \<open>\<open>onOpen\<close> from the moment the provider has resolved to \<open>token\<close>.\<close>

definition onOpen_resume ::
    "int option \<Rightarrow> string option \<Rightarrow> (nat \<Rightarrow> string) \<Rightarrow> int \<Rightarrow> int \<Rightarrow> state \<Rightarrow> result" where
  "onOpen_resume prev token uuid now now_log s =
     (case token of
        None \<Rightarrow> joinRoomsFilter prev uuid now now_log s
      | Some tok \<Rightarrow>
          if tok = [] then joinRoomsFilter prev uuid now now_log s
          else
            let authId = uuid 0
            in (case ws_send (Frame authId ''auth'' (P_token tok)) s of
                  Inl e \<Rightarrow> Inl e
                | Inr s1 \<Rightarrow>
                    (case ws s1 of
                       None \<Rightarrow> Inl (TypeError, s1)
                     | Some k \<Rightarrow> Inr (addEventListener k Ev_message (OnMsg authId prev) s1))))"

text \<open>The listener \<open>onMsg\<close> that waits for the answer to the auth frame.\<close>

definition onMsg ::
    "string \<Rightarrow> int option \<Rightarrow> event_data \<Rightarrow> (nat \<Rightarrow> string) \<Rightarrow> int \<Rightarrow> int \<Rightarrow> state \<Rightarrow> result" where
  "onMsg authId prev dat uuid now now_log s =
     (case (case dat of String_data pr \<Rightarrow> pr | Other_data pr \<Rightarrow> pr) of
        Malformed \<Rightarrow> Inl (SyntaxError, s)
      | Parsed_null \<Rightarrow> Inl (TypeError, s)
      | Parsed msg \<Rightarrow>
          if msg_i msg = Some authId then
            let s1 = (case ws s of
                        None \<Rightarrow> s
                      | Some k \<Rightarrow> removeEventListener k Ev_message (OnMsg authId prev) s)
            in joinRoomsFilter prev uuid now now_log s1
          else Inr s)"

section \<open>Runs of the client\<close>

text \<open>
  What one run to completion reads from outside: the clock, the random number generator
  and the identifiers.
\<close>

record inputs =
  date_now :: int
  math_random :: real
  uuid_v1 :: "nat \<Rightarrow> string"

text \<open>
  What can happen to the client: a call of a public method, an event of socket \<open>k\<close>,
  the expiry of timer \<open>h\<close>, or the token provider resolving for the \<open>j\<close>-th suspended
  call of \<open>onOpen\<close>.
\<close>

datatype event =
    Call_join string
  | Call_leave string
  | Call_filter string jsval
  | Call_close
  | Call_open
  | Socket_opens nat
  | Socket_closes nat
  | Socket_errors nat
  | Socket_message nat event_data
  | Timer_fires nat
  | Token_resolves nat "string option"

fun call_listener :: "inputs \<Rightarrow> event_data \<Rightarrow> listener \<Rightarrow> state \<Rightarrow> result" where
  "call_listener inp dat OnOpen s = Inr (onOpen (date_now inp) (date_now inp) s)"
| "call_listener inp dat OnClose s = Inr (onClose (math_random inp) s)"
| "call_listener inp dat OnMessage s = onMessage (date_now inp) dat s"
| "call_listener inp dat RetryConnection s = Inr (retryConnection (math_random inp) s)"
| "call_listener inp dat (OnMsg authId prev) s =
     onMsg authId prev dat (uuid_v1 inp) (date_now inp) (date_now inp) s"

fun call_listeners :: "inputs \<Rightarrow> event_data \<Rightarrow> listener list \<Rightarrow> state \<Rightarrow> result" where
  "call_listeners inp dat [] s = Inr s"
| "call_listeners inp dat (l # ls) s =
     (case call_listener inp dat l s of
        Inl e \<Rightarrow> Inl e
      | Inr s1 \<Rightarrow> call_listeners inp dat ls s1)"

text \<open>
  The socket \<open>k\<close> emits the event \<open>ev\<close>: its listeners for \<open>ev\<close> run in order. The
  socket is an \<open>EventEmitter\<close>: an error event that has no listener is thrown.
\<close>

definition dispatch :: "inputs \<Rightarrow> nat \<Rightarrow> event_name \<Rightarrow> event_data \<Rightarrow> state \<Rightarrow> result" where
  "dispatch inp k ev dat s =
     (case socket_at s k of
        None \<Rightarrow> Inr s
      | Some sk \<Rightarrow>
          let ls = map snd (filter (\<lambda>x. fst x = ev) (listeners sk))
          in if ev = Ev_error \<and> ls = [] then Inl (UnhandledError, s)
             else call_listeners inp dat ls s)"

definition set_readyState :: "nat \<Rightarrow> ready_state \<Rightarrow> state \<Rightarrow> state" where
  "set_readyState k rs s = update_socket k (\<lambda>sk. sk\<lparr>readyState := rs\<rparr>) s"

definition readyState_at :: "state \<Rightarrow> nat \<Rightarrow> ready_state option" where
  "readyState_at s k = map_option readyState (socket_at s k)"

text \<open>
  One step of a run. A socket opens while it is connecting, closes or fails while it is not
  yet closed (also after \<open>close()\<close> has been called on it), and delivers a message while
  it is open or closing; it sets its \<open>readyState\<close> before it calls the listeners. A
  timer that expires is no longer pending when its callback runs.
  An event that cannot happen in the state leaves the state as it is. All the readings of
  the clock within one step give the same value.
\<close>

fun step :: "inputs \<Rightarrow> event \<Rightarrow> state \<Rightarrow> result" where
  "step inp (Call_join channel) s = join (uuid_v1 inp 0) channel s"
| "step inp (Call_leave channel) s = leave (uuid_v1 inp 0) channel s"
| "step inp (Call_filter type flt) s = filter_spec (uuid_v1 inp 0) type flt s"
| "step inp Call_close s = Inr (close s)"
| "step inp Call_open s = Inr (open_ws s)"
| "step inp (Socket_opens k) s =
     (if readyState_at s k = Some CONNECTING
      then dispatch inp k Ev_open (Other_data Malformed) (set_readyState k OPEN s)
      else Inr s)"
| "step inp (Socket_closes k) s =
     (if readyState_at s k \<noteq> None \<and> readyState_at s k \<noteq> Some CLOSED
      then dispatch inp k Ev_close (Other_data Malformed) (set_readyState k CLOSED s)
      else Inr s)"
| "step inp (Socket_errors k) s =
     (if readyState_at s k \<noteq> None \<and> readyState_at s k \<noteq> Some CLOSED
      then dispatch inp k Ev_error (Other_data Malformed) (set_readyState k CLOSING s)
      else Inr s)"
| "step inp (Socket_message k dat) s =
     (if readyState_at s k = Some OPEN \<or> readyState_at s k = Some CLOSING
      then dispatch inp k Ev_message dat s
      else Inr s)"
| "step inp (Timer_fires h) s =
     (case map_of (timers s) h of
        None \<Rightarrow> Inr s
      | Some (cb, ms) \<Rightarrow>
          let s1 = s\<lparr>timers := filter (\<lambda>x. fst x \<noteq> h) (timers s)\<rparr>
          in (case cb of
                Reconnect_callback \<Rightarrow> Inr (reconnect_callback s1)
              | Monitor_callback \<Rightarrow> monitor_callback (uuid_v1 inp 0) (date_now inp) s1))"
| "step inp (Token_resolves j token) s =
     (if j < length (suspended s)
      then onOpen_resume (suspended s ! j) token (uuid_v1 inp) (date_now inp) (date_now inp)
             (s\<lparr>suspended := take j (suspended s) @ drop (Suc j) (suspended s)\<rparr>)
      else Inr s)"

text \<open>A run stops at the first error a step throws.\<close>

fun run :: "(inputs \<times> event) list \<Rightarrow> state \<Rightarrow> result" where
  "run [] s = Inr s"
| "run ((inp, ev) # rest) s =
     (case step inp ev s of
        Inl e \<Rightarrow> Inl e
      | Inr s1 \<Rightarrow> run rest s1)"

fun state_of :: "result \<Rightarrow> state" where
  "state_of (Inl (e, s)) = s"
| "state_of (Inr s) = s"

section \<open>Example states\<close>

text \<open>
  The inputs and the states at which the theorems below are instantiated. \<open>connected\<close>
  is the client after \<open>open()\<close> and the \<open>open\<close> event of its socket.
\<close>

definition example_inputs :: inputs where
  "example_inputs =
     \<lparr>date_now = 1000, math_random = 1/2, uuid_v1 = (\<lambda>n. ''u'' @ replicate n (CHR ''x''))\<rparr>"

definition connected :: state where
  "connected =
     state_of (run [(example_inputs, Call_open), (example_inputs, Socket_opens 0)]
                 (constructor 300000))"

text \<open>\<open>subscribed\<close> is \<open>connected\<close> after a first call of \<open>filter\<close>.\<close>

definition subscribed :: state where
  "subscribed = state_of (filter_spec ''u1'' ''ACTIVITY'' (Obj 1) connected)"

text \<open>\<open>received\<close> is \<open>connected\<close> after the application frame \<open>chat_m1\<close> has arrived.\<close>

definition chat_m1 :: IRTMessage where
  "chat_m1 = \<lparr>msg_i = Some ''m1'', msg_t = Some ''chat'', msg_c = None, msg_p = Null\<rparr>"

definition received :: state where
  "received = state_of (onMessage 1500 (String_data (Parsed chat_m1)) connected)"

text \<open>
  \<open>reconnected\<close> is a client that has joined two channels and set a filter, connected,
  received \<open>chat_m1\<close>, lost its socket, and whose second socket has just opened: its
  \<open>onOpen\<close> is suspended with \<open>prevLastConnected = 1000\<close>.
\<close>

definition reconnected :: state where
  "reconnected =
     state_of (run [(example_inputs, Call_open),
                    (example_inputs, Call_join ''server:events:1''),
                    (example_inputs, Call_join ''server:updates:1''),
                    (example_inputs, Call_filter ''ACTIVITY'' (Obj 1)),
                    (example_inputs, Socket_opens 0),
                    (example_inputs, Token_resolves 0 None),
                    (example_inputs, Socket_message 0 (String_data (Parsed chat_m1))),
                    (example_inputs\<lparr>date_now := 2000\<rparr>, Socket_closes 0),
                    (example_inputs\<lparr>date_now := 2000\<rparr>, Timer_fires 1),
                    (example_inputs\<lparr>date_now := 3000\<rparr>, Socket_opens 1)]
                 (constructor 300000))"

subsection \<open>The frames a resynchronisation is expected to send\<close>

fun filter_frames :: "(nat \<Rightarrow> string) \<Rightarrow> nat \<Rightarrow> (string \<times> jsval) list \<Rightarrow> frame list" where
  "filter_frames uuid n [] = []"
| "filter_frames uuid n ((type, flt) # rest) =
     Frame (uuid n) ''filter'' (P_filter type flt) # filter_frames uuid (Suc n) rest"

definition replay_frames :: "int option \<Rightarrow> (nat \<Rightarrow> string) \<Rightarrow> int \<Rightarrow> state \<Rightarrow> frame list" where
  "replay_frames prev uuid now s =
     (if replay_test (lastMessage s) prev now (replayMaxTime s)
      then [Frame (uuid (Suc (length (filters s)))) ''replay''
              (P_replay (channels s) (lastMessage s))]
      else [])"

text \<open>The socket that \<open>setupConnection\<close> creates, with its four listeners.\<close>

definition fresh_socket :: socket where
  "fresh_socket =
     \<lparr>readyState = CONNECTING,
      listeners = [(Ev_open, OnOpen), (Ev_close, OnClose), (Ev_message, OnMessage),
                   (Ev_error, RetryConnection)],
      sent = []\<rparr>"

text \<open>\<open>disconnected\<close> is \<open>connected\<close> after its socket has closed by itself.\<close>

definition disconnected :: state where
  "disconnected =
     state_of (run [(example_inputs, Call_open), (example_inputs, Socket_opens 0),
                    (example_inputs\<lparr>date_now := 2000\<rparr>, Socket_closes 0)]
                 (constructor 300000))"

section \<open>Invariants of runs\<close>

text \<open>
  The value of \<open>Math.random()\<close> is a double in the interval from 0 (included) to 1
  (excluded).
\<close>

definition valid_inputs :: "inputs \<Rightarrow> bool" where
  "valid_inputs inp =
     (0 \<le> math_random inp \<and> math_random inp < 1 \<and> is_double (math_random inp))"

text \<open>
  The listeners of a socket are well formed if at most one of them is registered for the
  open event and if the listeners registered for the open event are exactly the
  occurrences of \<open>onOpen\<close>.
\<close>

definition wf_listeners :: "(event_name \<times> listener) list \<Rightarrow> bool" where
  "wf_listeners ls =
     (length (filter (\<lambda>x. fst x = Ev_open) ls) \<le> 1
      \<and> (\<forall>x \<in> set ls. (fst x = Ev_open) = (snd x = OnOpen)))"

definition socks_ok :: "socket list \<Rightarrow> bool" where
  "socks_ok xs = (\<forall>sk \<in> set xs. wf_listeners (listeners sk))"

text \<open>Every pending reconnect timer has a delay between 0 and 60 seconds.\<close>

definition timers_ok :: "(nat \<times> timer_callback \<times> int) list \<Rightarrow> bool" where
  "timers_ok ts =
     (\<forall>x \<in> set ts. fst (snd x) = Reconnect_callback \<longrightarrow> 0 \<le> snd (snd x) \<and> snd (snd x) \<le> 60000)"

text \<open>
  What holds in every state a run reaches: the reconnect delay lies between 0 and 60, the
  listeners are well formed, the reconnect timers are bounded, and the last-seen
  identifier is not the empty string.
\<close>

definition invariant :: "state \<Rightarrow> bool" where
  "invariant s =
     (0 \<le> retryDelay s \<and> retryDelay s \<le> 60 \<and> socks_ok (sockets s) \<and> timers_ok (timers s)
      \<and> lastMessage s \<noteq> Some [])"

text \<open>A transition is quiet if it keeps the reconnect delay and preserves the invariant.\<close>

definition quiet :: "state \<Rightarrow> state \<Rightarrow> bool" where
  "quiet s s' = (retryDelay s' = retryDelay s \<and> (invariant s \<longrightarrow> invariant s'))"

text \<open>
  \<open>retrying\<close> is a client whose first socket failed with an error event followed by a
  close event, and whose reconnect timer has created the second socket.
\<close>

definition retrying :: state where
  "retrying =
     state_of (run [(example_inputs, Call_open), (example_inputs, Socket_errors 0),
                    (example_inputs, Socket_closes 0), (example_inputs, Timer_fires 1)]
                 (constructor 300000))"

text \<open>
  The timers in every state a run reaches: the handle of a pending timer is below the
  counter of handles, and so is the handle in \<open>reconnectTimeout\<close>; a pending timer with
  the handle in \<open>reconnectTimeout\<close> is a reconnect timer; every pending liveness timer
  has the handle in \<open>monitorInterval\<close>.
\<close>

definition timer_inv :: "state \<Rightarrow> bool" where
  "timer_inv s =
     ((\<forall>x \<in> set (timers s). fst x < timer_count s)
      \<and> (\<forall>h. reconnectTimeout s = Some h \<longrightarrow> h < timer_count s)
      \<and> (\<forall>x \<in> set (timers s). reconnectTimeout s = Some (fst x)
             \<longrightarrow> fst (snd x) = Reconnect_callback)
      \<and> (\<forall>x \<in> set (timers s). fst (snd x) = Monitor_callback
             \<longrightarrow> monitorInterval s = Some (fst x)))"

text \<open>A transition keeps the timers in order if it preserves \<open>timer_inv\<close>.\<close>

definition tkeep :: "state \<Rightarrow> state \<Rightarrow> bool" where
  "tkeep s s' = (timer_inv s \<longrightarrow> timer_inv s')"


section \<open>Properties\<close>

subsection \<open>Rounding\<close>

lemma exponent_from_unique:
  "2 powi e \<le> x \<Longrightarrow> x < 2 powi (e + 1) \<Longrightarrow> e \<le> e0 \<Longrightarrow> e0 - e \<le> int n \<Longrightarrow>
   exponent_from n e0 x = e"
proof (induction n arbitrary: e0)
  case 0
  then show ?case by simp
next
  case (Suc n)
  show ?case
  proof (cases "2 powi e0 \<le> x")
    case True
    have "\<not> e + 1 \<le> e0"
    proof
      assume "e + 1 \<le> e0"
      then have "(2::real) powi (e + 1) \<le> 2 powi e0" by (rule power_int_increasing) simp
      with True Suc.prems(2) show False by simp
    qed
    then have "e0 = e" using Suc.prems(3) by simp
    then show ?thesis using True by simp
  next
    case False
    then have "e0 \<noteq> e" using Suc.prems(1) by auto
    then have "e \<le> e0 - 1" "e0 - 1 - e \<le> int n" using Suc.prems(3,4) by simp_all
    with Suc.prems(1,2) have "exponent_from n (e0 - 1) x = e" by (rule Suc.IH)
    then show ?thesis using False by simp
  qed
qed

lemma exponent_from_le:
  "x < 2 powi (e + 1) \<Longrightarrow> e0 - int n \<le> e \<Longrightarrow> exponent_from n e0 x \<le> e"
proof (induction n arbitrary: e0)
  case 0
  then show ?case by simp
next
  case (Suc n)
  show ?case
  proof (cases "2 powi e0 \<le> x")
    case True
    have "\<not> e + 1 \<le> e0"
    proof
      assume "e + 1 \<le> e0"
      then have "(2::real) powi (e + 1) \<le> 2 powi e0" by (rule power_int_increasing) simp
      with True Suc.prems(1) show False by simp
    qed
    then show ?thesis using True by simp
  next
    case False
    have "e0 - 1 - int n \<le> e" using Suc.prems(2) by simp
    with Suc.prems(1) have "exponent_from n (e0 - 1) x \<le> e" by (rule Suc.IH)
    then show ?thesis using False by simp
  qed
qed

lemma exponent_eq:
  assumes "2 powi e \<le> \<bar>x\<bar>" and "\<bar>x\<bar> < 2 powi (e + 1)" and "- 1022 \<le> e" and "e \<le> 1023"
  shows "exponent x = e"
  unfolding exponent_def using assms by (intro exponent_from_unique) simp_all

lemma exponent_le:
  assumes "\<bar>x\<bar> < 2 powi (e + 1)" and "- 1022 \<le> e"
  shows "exponent x \<le> e"
  unfolding exponent_def using assms by (intro exponent_from_le) simp_all

lemma round_half_even_cases:
  "round_half_even y = \<lfloor>y\<rfloor> \<and> y - of_int \<lfloor>y\<rfloor> \<le> 1/2
   \<or> round_half_even y = \<lfloor>y\<rfloor> + 1 \<and> 1/2 \<le> y - of_int \<lfloor>y\<rfloor>"
  unfolding round_half_even_def Let_def by (simp add: not_less)

lemma round_half_even_bounds:
  "y - 1/2 \<le> of_int (round_half_even y)" "of_int (round_half_even y) \<le> y + 1/2"
proof -
  have f: "of_int \<lfloor>y\<rfloor> \<le> y" "y < of_int \<lfloor>y\<rfloor> + 1" by linarith+
  consider "round_half_even y = \<lfloor>y\<rfloor>" "y - of_int \<lfloor>y\<rfloor> \<le> 1/2"
    | "round_half_even y = \<lfloor>y\<rfloor> + 1" "1/2 \<le> y - of_int \<lfloor>y\<rfloor>"
    using round_half_even_cases [of y] by blast
  then show "y - 1/2 \<le> of_int (round_half_even y)"
  proof cases
    case 1
    have "y - 1/2 \<le> of_int \<lfloor>y\<rfloor>" using 1(2) by linarith
    then show ?thesis by (simp only: 1(1))
  next
    case 2
    have "y - 1/2 \<le> of_int (\<lfloor>y\<rfloor> + 1)" using f(2) by linarith
    then show ?thesis by (simp only: 2(1))
  qed
  consider "round_half_even y = \<lfloor>y\<rfloor>" "y - of_int \<lfloor>y\<rfloor> \<le> 1/2"
    | "round_half_even y = \<lfloor>y\<rfloor> + 1" "1/2 \<le> y - of_int \<lfloor>y\<rfloor>"
    using round_half_even_cases [of y] by blast
  then show "of_int (round_half_even y) \<le> y + 1/2"
  proof cases
    case 1
    have "of_int \<lfloor>y\<rfloor> \<le> y + 1/2" using f(1) by linarith
    then show ?thesis by (simp only: 1(1))
  next
    case 2
    have "of_int (\<lfloor>y\<rfloor> + 1) \<le> y + 1/2" using 2(2) by linarith
    then show ?thesis by (simp only: 2(1))
  qed
qed

lemma round_half_even_of_int [simp]: "round_half_even (of_int k) = k"
  by (simp add: round_half_even_def)

lemma round_half_even_nonneg: "0 \<le> y \<Longrightarrow> 0 \<le> round_half_even y"
proof -
  assume "0 \<le> y"
  then have "0 \<le> \<lfloor>y\<rfloor>" by simp
  then show ?thesis using round_half_even_cases [of y] by auto
qed

lemma round_half_even_le:
  assumes "y < of_int N + 1/2"
  shows "round_half_even y \<le> N"
proof -
  have "of_int (round_half_even y) \<le> y + 1/2" by (rule round_half_even_bounds)
  with assms have "(of_int (round_half_even y) :: real) < of_int N + 1" by simp
  then have "(of_int (round_half_even y) :: real) < of_int (N + 1)" by simp
  then have "round_half_even y < N + 1" by (simp only: of_int_less_iff)
  then show ?thesis by simp
qed

lemma round_double_exact:
  assumes "x / 2 powi (exponent x - 52) = of_int k"
  shows "round_double x = x"
proof -
  have "2 powi (exponent x - 52) \<noteq> (0::real)" by simp
  then have "x = 2 powi (exponent x - 52) * of_int k"
    using assms by (simp add: field_simps)
  then show ?thesis using assms by (simp add: round_double_def Let_def)
qed


lemma round_double_nonneg:
  assumes "0 \<le> x"
  shows "0 \<le> round_double x"
proof -
  have "0 \<le> x / 2 powi (exponent x - 52)" using assms by simp
  then have "0 \<le> round_half_even (x / 2 powi (exponent x - 52))"
    by (rule round_half_even_nonneg)
  then show ?thesis by (simp add: round_double_def Let_def)
qed

lemma double_below_one:
  assumes "0 \<le> r" and "r < 1" and "is_double r"
  shows "r \<le> 1 - 1 / 2 ^ 53"
proof (cases "r < 1/2")
  case True
  have "(1/2 :: real) \<le> 1 - 1 / 2 ^ 53" by simp
  with True show ?thesis by linarith
next
  case False
  have "exponent r = - 1"
    using False assms(1,2) by (intro exponent_eq) simp_all
  then have u: "2 powi (exponent r - 52) = (1 / 2 ^ 53 :: real)"
    by (simp add: power_int_minus_divide)
  define k where "k = round_half_even (r / (1 / 2 ^ 53))"
  have r: "r = 1 / 2 ^ 53 * of_int k"
    using assms(3) unfolding is_double_def round_double_def Let_def u k_def by simp
  then have "of_int k = r * 2 ^ 53" by simp
  then have "(of_int k :: real) < 2 ^ 53" using assms(2) by simp
  then have "(of_int k :: real) < of_int (2 ^ 53)" by simp
  then have "k < 2 ^ 53" by (simp only: of_int_less_iff)
  then have "k \<le> 2 ^ 53 - 1" by simp
  then have "(of_int k :: real) \<le> of_int (2 ^ 53 - 1)" by (simp only: of_int_le_iff)
  then have "(of_int k :: real) \<le> 2 ^ 53 - 1" by simp
  then have "1 / 2 ^ 53 * (of_int k :: real) \<le> 1 / 2 ^ 53 * (2 ^ 53 - 1)"
    by (intro mult_left_mono) simp_all
  then show ?thesis using r by (simp add: field_simps)
qed

lemma times_double_6_bounds:
  assumes "0 \<le> r" and "r < 1" and "is_double r"
  shows "0 \<le> times_double r 6" and "times_double r 6 < 6"
proof -
  let ?x = "r * 6"
  have x0: "0 \<le> ?x" using assms(1) by simp
  then show "0 \<le> times_double r 6"
    unfolding times_double_def by (rule round_double_nonneg)
  have "r \<le> 1 - 1 / 2 ^ 53" using assms by (rule double_below_one)
  then have xu: "?x \<le> 6 - 6 / 2 ^ 53" by simp
  show "times_double r 6 < 6"
  proof (cases "?x < 4")
    case True
    have "exponent ?x \<le> 1"
      using True x0 by (intro exponent_le) simp_all
    then have "exponent ?x - 52 \<le> 0" by simp
    then have "(2::real) powi (exponent ?x - 52) \<le> 2 powi 0"
      by (rule power_int_increasing) simp
    then have u1: "(2::real) powi (exponent ?x - 52) \<le> 1" by simp
    have u0: "0 < (2::real) powi (exponent ?x - 52)" by simp
    have "of_int (round_half_even (?x / 2 powi (exponent ?x - 52)))
            \<le> ?x / 2 powi (exponent ?x - 52) + 1/2"
      by (rule round_half_even_bounds)
    then have "2 powi (exponent ?x - 52) * of_int (round_half_even (?x / 2 powi (exponent ?x - 52)))
            \<le> 2 powi (exponent ?x - 52) * (?x / 2 powi (exponent ?x - 52) + 1/2)"
      using u0 by (intro mult_left_mono) simp_all
    also have "\<dots> = ?x + 2 powi (exponent ?x - 52) / 2"
      using u0 by (simp add: field_simps)
    also have "\<dots> \<le> ?x + 1 / 2" using u1 by simp
    also have "\<dots> < 6" using True by simp
    finally show ?thesis by (simp add: times_double_def round_double_def Let_def)
  next
    case False
    then have "exponent ?x = 2"
      using xu by (intro exponent_eq) simp_all
    then have u: "2 powi (exponent ?x - 52) = (1 / 2 ^ 50 :: real)"
      by (simp add: power_int_minus_divide)
    have "?x / (1 / 2 ^ 50) \<le> (6 - 6 / 2 ^ 53) / (1 / 2 ^ 50)"
      using xu by (intro divide_right_mono) simp_all
    also have "\<dots> < of_int (6 * 2 ^ 50 - 1) + 1 / 2" by simp
    finally have "round_half_even (?x / (1 / 2 ^ 50)) \<le> 6 * 2 ^ 50 - 1"
      by (rule round_half_even_le)
    then have "(of_int (round_half_even (?x / (1 / 2 ^ 50))) :: real) \<le> of_int (6 * 2 ^ 50 - 1)"
      by (simp only: of_int_le_iff)
    then have "1 / 2 ^ 50 * (of_int (round_half_even (?x / (1 / 2 ^ 50))) :: real)
            \<le> 1 / 2 ^ 50 * of_int (6 * 2 ^ 50 - 1)"
      by (intro mult_left_mono) simp_all
    also have "\<dots> < 6" by simp
    finally show ?thesis unfolding times_double_def round_double_def Let_def u .
  qed
qed

lemma times_double_half_6 [simp]: "times_double (1/2) 6 = 3"
proof -
  have e: "exponent 3 = 1" by (intro exponent_eq) simp_all
  have "(3::real) / 2 powi (exponent 3 - 52) = of_int (3 * 2 ^ 51)"
    by (simp add: e power_int_minus_divide)
  then have "round_double 3 = 3" by (rule round_double_exact)
  then show ?thesis by (simp add: times_double_def)
qed

lemma is_double_half [simp]: "is_double (1/2)"
proof -
  have e: "exponent (1/2) = - 1" by (intro exponent_eq) simp_all
  have "(1/2::real) / 2 powi (exponent (1/2) - 52) = of_int (2 ^ 52)"
    by (simp add: e power_int_minus_divide)
  then show ?thesis unfolding is_double_def by (rule round_double_exact)
qed

text \<open>
  The product of doubles is not the exact product: for this double \<open>r\<close> the exact product
  \<open>r * 6\<close> lies just below 5 and rounds to 5, so \<open>Math.floor(r * 6)\<close> is 5 and not 4.
\<close>

lemma times_double_tie_to_even:
  "is_double (3752999689475413 / 4503599627370496)
   \<and> \<lfloor>(3752999689475413 / 4503599627370496) * (6::real)\<rfloor> = 4
   \<and> \<lfloor>times_double (3752999689475413 / 4503599627370496) 6\<rfloor> = 5"
proof -
  have e1: "exponent (3752999689475413 / 4503599627370496) = - 1" by (intro exponent_eq) simp_all
  have "(3752999689475413 / 4503599627370496 :: real) / 2 powi (exponent (3752999689475413 / 4503599627370496) - 52)
          = of_int (3752999689475413 * 2)"
    by (simp add: e1 power_int_minus_divide)
  then have 1: "is_double (3752999689475413 / 4503599627370496)"
    unfolding is_double_def by (rule round_double_exact)
  have 2: "\<lfloor>(3752999689475413 / 4503599627370496) * (6::real)\<rfloor> = 4" by simp
  have e2: "exponent (11258999068426239 / 2251799813685248) = 2"
    by (intro exponent_eq) simp_all
  have "round_half_even (11258999068426239 / 2) = 5629499534213120"
    by (simp add: round_half_even_def Let_def)
  then have "round_double (11258999068426239 / 2251799813685248) = 5"
    by (simp add: round_double_def Let_def e2 power_int_minus_divide)
  then have "times_double (3752999689475413 / 4503599627370496) 6 = 5"
    by (simp add: times_double_def)
  then show ?thesis using 1 2 by simp
qed

subsection \<open>Sending\<close>

lemma ws_send_open:
  assumes "ws_is_open s"
  shows "\<exists>s'. ws_send f s = Inr s' \<and> outbox s' = outbox s @ [f] \<and> ws s' = ws s
           \<and> channels s' = channels s \<and> filters s' = filters s \<and> ws_is_open s'"
proof -
  from assms obtain k sk where k: "ws s = Some k" "socket_at s k = Some sk" "readyState sk = OPEN"
    by (auto simp: ws_is_open_def split: option.splits)
  then have kl: "k < length (sockets s)" "sockets s ! k = sk"
    by (auto simp: socket_at_def split: if_splits)
  have "ws_send f s = Inr (s\<lparr>sockets := (sockets s)[k := sk\<lparr>sent := sent sk @ [f]\<rparr>]\<rparr>)"
    using k by (simp add: ws_send_def)
  then show ?thesis using k kl
    by (simp add: ws_is_open_def outbox_def socket_at_def)
qed

lemmas model_defs = constructor_def open_ws_def setupConnection_def addEventListener_def update_socket_def
  socket_at_def readyState_at_def set_readyState_def dispatch_def onOpen_def monitorConnection_def
  setTimeout_def clearTimeout_def ws_is_open_def Let_def

lemma connected_eq:
  "connected = \<lparr>ws = Some 0, lastPing = Some 1000, monitorInterval = Some 0,
        reconnectTimeout = None, lastMessage = None,
        lastConnected = Some 1000, channels = [], filters = [],
        retryDelay = 0, replayMaxTime = 300000,
        sockets =
          [\<lparr>readyState = OPEN,
              listeners =
                [(Ev_open, OnOpen), (Ev_close, OnClose),
                 (Ev_message, OnMessage), (Ev_error, RetryConnection)],
              sent = []\<rparr>],
        timers = [(0, Monitor_callback, 30000)], timer_count = 1,
        suspended = [None], emitted = [], console = []\<rparr>"
  by (simp add: connected_def example_inputs_def model_defs)

lemma set_delete_set: "set (set_delete x xs) = set xs - {x}"
  by (auto simp: set_delete_def)

lemma ws_is_open_cong:
  "ws s' = ws s \<Longrightarrow> sockets s' = sockets s \<Longrightarrow> ws_is_open s' = ws_is_open s"
  by (simp add: ws_is_open_def socket_at_def split: option.splits)

lemma outbox_cong:
  "ws s' = ws s \<Longrightarrow> sockets s' = sockets s \<Longrightarrow> outbox s' = outbox s"
  by (simp add: outbox_def socket_at_def split: option.splits)

lemma ws_is_open_channels_upd [simp]: "ws_is_open (s\<lparr>channels := c\<rparr>) = ws_is_open s"
  by (rule ws_is_open_cong) simp_all

lemma outbox_channels_upd [simp]: "outbox (s\<lparr>channels := c\<rparr>) = outbox s"
  by (rule outbox_cong) simp_all

subsection \<open>Leaving a channel\<close>

text \<open>
  Claim C8. For every channel \<open>X\<close> and every state, \<open>leave(X)\<close> returns normally, removes
  \<open>X\<close> from the channel set whether or not it was a member, and, if the socket is open,
  sends one leave frame for \<open>X\<close>, whether or not \<open>X\<close> was a member; if the client is not
  connected, no socket receives a frame.
\<close>

theorem leave_unconditional:
  "\<exists>s'. leave uuid X s = Inr s'
      \<and> X \<notin> set (channels s') \<and> set (channels s') = set (channels s) - {X}
      \<and> (ws_is_open s \<longrightarrow> outbox s' = outbox s @ [Frame uuid ''leave'' (P_channels [X])])
      \<and> (\<not> ws_is_open s \<longrightarrow> sockets s' = sockets s)"
proof (cases "ws_is_open s")
  case True
  let ?s1 = "s\<lparr>channels := set_delete X (channels s)\<rparr>"
  have "ws_is_open ?s1" using True by simp
  from ws_send_open [OF this, of "Frame uuid ''leave'' (P_channels [X])"]
  obtain s' where s': "ws_send (Frame uuid ''leave'' (P_channels [X])) ?s1 = Inr s'"
      "outbox s' = outbox ?s1 @ [Frame uuid ''leave'' (P_channels [X])]"
      "channels s' = channels ?s1"
    by blast
  have "leave uuid X s = Inr s'"
    using True s'(1) by (simp add: leave_def Let_def)
  then show ?thesis using True s'(2,3) by (simp add: set_delete_set)
next
  case False
  then have "leave uuid X s = Inr (s\<lparr>channels := set_delete X (channels s)\<rparr>)"
    by (simp add: leave_def Let_def)
  then show ?thesis using False by (simp add: set_delete_set)
qed

theorem leave_unconditional_witness:
  "ws_is_open connected \<and> ''server:1'' \<notin> set (channels connected)
   \<and> (\<exists>s'. leave ''u'' ''server:1'' connected = Inr s'
          \<and> outbox s' = [Frame ''u'' ''leave'' (P_channels [''server:1''])])
   \<and> \<not> ws_is_open (constructor 300000)
   \<and> (\<exists>s'. leave ''u'' ''server:1'' (constructor 300000) = Inr s' \<and> sockets s' = [])"
proof -
  have 1: "ws_is_open connected" "channels connected = []" "outbox connected = []"
    by (simp_all add: connected_eq ws_is_open_def socket_at_def outbox_def)
  have 2: "\<not> ws_is_open (constructor 300000)" "sockets (constructor 300000) = []"
    by (simp_all add: constructor_def ws_is_open_def)
  show ?thesis
    using leave_unconditional [of "''u''" "''server:1''" connected]
      leave_unconditional [of "''u''" "''server:1''" "constructor 300000"] 1 2
    by auto
qed

subsection \<open>Filters\<close>

lemma strict_eq_Obj [simp]: "strict_eq x (Obj r) = (x = Obj r)"
  by (cases x) simp_all

lemma map_get_map_set [simp]: "map_get (map_set k v m) k = v"
  by (simp add: map_get_def map_set_def update_conv')

lemma ws_is_open_filters_upd [simp]: "ws_is_open (s\<lparr>filters := c\<rparr>) = ws_is_open s"
  by (rule ws_is_open_cong) simp_all

lemma outbox_filters_upd [simp]: "outbox (s\<lparr>filters := c\<rparr>) = outbox s"
  by (rule outbox_cong) simp_all

lemma filter_spec_same:
  "strict_eq (map_get (filters s) type) v \<Longrightarrow> filter_spec uuid type v s = Inr s"
  by (simp add: filter_spec_def)

lemma filter_spec_stores:
  assumes "\<not> strict_eq (map_get (filters s) type) v"
  shows "\<exists>s'. filter_spec uuid type v s = Inr s'
           \<and> filters s' = map_set type v (filters s)
           \<and> (ws_is_open s \<longrightarrow> outbox s' = outbox s @ [Frame uuid ''filter'' (P_filter type v)])
           \<and> (\<not> ws_is_open s \<longrightarrow> sockets s' = sockets s)"
proof (cases "ws_is_open s")
  case True
  let ?s1 = "s\<lparr>filters := map_set type v (filters s)\<rparr>"
  let ?f = "Frame uuid ''filter'' (P_filter type v)"
  have "ws_is_open ?s1" using True by simp
  from ws_send_open [OF this, of ?f]
  obtain s' where s': "ws_send ?f ?s1 = Inr s'" "outbox s' = outbox ?s1 @ [?f]"
      "filters s' = filters ?s1"
    by blast
  have "filter_spec uuid type v s = Inr s'"
    using True assms s'(1) by (simp add: filter_spec_def Let_def)
  then show ?thesis using True s'(2,3) by simp
next
  case False
  then have "filter_spec uuid type v s = Inr (s\<lparr>filters := map_set type v (filters s)\<rparr>)"
    using assms by (simp add: filter_spec_def Let_def)
  then show ?thesis using False by simp
qed

text \<open>
  Claim C7. For a specification that is an object, \<open>filter(type, spec)\<close> returns the state
  unchanged, with no frame sent, exactly when the value stored for \<open>type\<close> is the same
  reference as \<open>spec\<close>. Hence a second call with the same reference changes and sends
  nothing. A call with another reference \<open>r'\<close> (the contents of the two objects play no
  part, so this holds for an object equal to the stored one in all its fields) stores
  \<open>r'\<close> and, if the socket is open, sends a filter frame again; if it is not open, no
  socket receives a frame.
\<close>

theorem filter_identity_dedup:
  "((filter_spec uuid type (Obj r) s = Inr s) = (map_get (filters s) type = Obj r))
   \<and> (\<exists>s1. filter_spec uuid type (Obj r) s = Inr s1
          \<and> map_get (filters s1) type = Obj r
          \<and> filter_spec uuid' type (Obj r) s1 = Inr s1)
   \<and> (map_get (filters s) type = Obj r \<and> r' \<noteq> r \<longrightarrow>
        (\<exists>s2. filter_spec uuid type (Obj r') s = Inr s2
           \<and> map_get (filters s2) type = Obj r'
           \<and> (ws_is_open s \<longrightarrow>
                 outbox s2 = outbox s @ [Frame uuid ''filter'' (P_filter type (Obj r'))])
           \<and> (\<not> ws_is_open s \<longrightarrow> sockets s2 = sockets s)))"
proof (intro conjI impI)
  show "(filter_spec uuid type (Obj r) s = Inr s) = (map_get (filters s) type = Obj r)"
  proof
    assume same: "filter_spec uuid type (Obj r) s = Inr s"
    show "map_get (filters s) type = Obj r"
    proof (rule ccontr)
      assume "map_get (filters s) type \<noteq> Obj r"
      then have "\<not> strict_eq (map_get (filters s) type) (Obj r)" by simp
      from filter_spec_stores [OF this, of uuid] same
      have "filters s = map_set type (Obj r) (filters s)" by auto
      then have "map_get (filters s) type = map_get (map_set type (Obj r) (filters s)) type"
        by simp
      with \<open>map_get (filters s) type \<noteq> Obj r\<close> show False by simp
    qed
  next
    assume "map_get (filters s) type = Obj r"
    then show "filter_spec uuid type (Obj r) s = Inr s"
      by (simp add: filter_spec_same)
  qed
next
  show "\<exists>s1. filter_spec uuid type (Obj r) s = Inr s1
          \<and> map_get (filters s1) type = Obj r
          \<and> filter_spec uuid' type (Obj r) s1 = Inr s1"
  proof (cases "map_get (filters s) type = Obj r")
    case True
    then show ?thesis by (simp add: filter_spec_same)
  next
    case False
    then have "\<not> strict_eq (map_get (filters s) type) (Obj r)" by simp
    from filter_spec_stores [OF this, of uuid]
    obtain s1 where s1: "filter_spec uuid type (Obj r) s = Inr s1"
        "filters s1 = map_set type (Obj r) (filters s)"
      by blast
    then have "map_get (filters s1) type = Obj r" by simp
    then show ?thesis using s1(1) by (simp add: filter_spec_same)
  qed
next
  assume a: "map_get (filters s) type = Obj r \<and> r' \<noteq> r"
  then have "\<not> strict_eq (map_get (filters s) type) (Obj r')" by simp
  from filter_spec_stores [OF this, of uuid]
  obtain s2 where s2: "filter_spec uuid type (Obj r') s = Inr s2"
      "filters s2 = map_set type (Obj r') (filters s)"
      "ws_is_open s \<longrightarrow> outbox s2 = outbox s @ [Frame uuid ''filter'' (P_filter type (Obj r'))]"
      "\<not> ws_is_open s \<longrightarrow> sockets s2 = sockets s"
    by blast
  from s2(2) have "map_get (filters s2) type = Obj r'" by simp
  with s2(1,3,4) show "\<exists>s2. filter_spec uuid type (Obj r') s = Inr s2
           \<and> map_get (filters s2) type = Obj r'
           \<and> (ws_is_open s \<longrightarrow>
                 outbox s2 = outbox s @ [Frame uuid ''filter'' (P_filter type (Obj r'))])
           \<and> (\<not> ws_is_open s \<longrightarrow> sockets s2 = sockets s)"
    by blast
qed


lemma subscribed_eq:
  "subscribed = connected\<lparr>filters := [(''ACTIVITY'', Obj 1)],
     sockets := [\<lparr>readyState = OPEN,
              listeners =
                [(Ev_open, OnOpen), (Ev_close, OnClose),
                 (Ev_message, OnMessage), (Ev_error, RetryConnection)],
              sent = [Frame ''u1'' ''filter'' (P_filter ''ACTIVITY'' (Obj 1))]\<rparr>]\<rparr>"
  by (simp add: subscribed_def connected_eq filter_spec_def map_get_def map_set_def
        ws_is_open_def socket_at_def ws_send_def)

theorem filter_identity_dedup_witness:
  "map_get (filters subscribed) ''ACTIVITY'' = Obj 1 \<and> ws_is_open subscribed
   \<and> filter_spec ''u2'' ''ACTIVITY'' (Obj 1) subscribed = Inr subscribed
   \<and> (\<exists>s2. filter_spec ''u2'' ''ACTIVITY'' (Obj 2) subscribed = Inr s2
          \<and> map_get (filters s2) ''ACTIVITY'' = Obj 2
          \<and> outbox s2 = [Frame ''u1'' ''filter'' (P_filter ''ACTIVITY'' (Obj 1)),
                          Frame ''u2'' ''filter'' (P_filter ''ACTIVITY'' (Obj 2))])"
proof -
  have 1: "map_get (filters subscribed) ''ACTIVITY'' = Obj 1" "ws_is_open subscribed"
      "outbox subscribed = [Frame ''u1'' ''filter'' (P_filter ''ACTIVITY'' (Obj 1))]"
    by (simp_all add: subscribed_eq connected_eq map_get_def ws_is_open_def socket_at_def
          outbox_def)
  show ?thesis
    using filter_identity_dedup [of "''u2''" "''ACTIVITY''" 1 subscribed "''u2''" 2] 1
    by auto
qed

subsection \<open>Inbound frames\<close>

lemma onMessage_parsed:
  "onMessage now (String_data (Parsed msg)) s =
     Inr ((if msg_t msg = Some ''ack'' then (\<lambda>x. x) else emitted_update (\<lambda>e. e @ [msg]))
          ((if truthy_str (msg_i msg) \<and> msg_t msg \<noteq> Some ''error'' \<and> msg_t msg \<noteq> Some ''ack''
            then lastMessage_update (\<lambda>_. msg_i msg) else (\<lambda>x. x))
           (s\<lparr>lastPing := Some now\<rparr>)))"
  by (simp add: onMessage_def Let_def)

lemma received_eq:
  "received = connected\<lparr>lastPing := Some 1500, lastMessage := Some ''m1'', emitted := [chat_m1]\<rparr>"
  by (simp add: received_def onMessage_parsed chat_m1_def connected_eq)

text \<open>
  Claim C6, as a statement about every frame that is neither \<open>ack\<close> nor \<open>error\<close>, fails:
  the frame \<open>{i: "", t: "chat"}\<close> arriving at \<open>received\<close> leaves the last-seen
  identifier at \<open>m1\<close>; it is not set from the correlation identifier of the frame.
\<close>

theorem onMessage_last_seen_counterexample:
  "msg_t (chat_m1\<lparr>msg_i := Some ''''\<rparr>) \<noteq> Some ''ack''
   \<and> msg_t (chat_m1\<lparr>msg_i := Some ''''\<rparr>) \<noteq> Some ''error''
   \<and> lastMessage (state_of (onMessage 2000 (String_data (Parsed (chat_m1\<lparr>msg_i := Some ''''\<rparr>)))
        received)) = Some ''m1''
   \<and> lastMessage (state_of (onMessage 2000 (String_data (Parsed (chat_m1\<lparr>msg_i := Some ''''\<rparr>)))
        received)) \<noteq> msg_i (chat_m1\<lparr>msg_i := Some ''''\<rparr>)"
  by (simp add: onMessage_parsed chat_m1_def received_eq connected_eq)

text \<open>
  Claim C6, amended. For every inbound text frame that parses to an envelope, the activity
  timestamp is set. A frame of type \<open>ack\<close> is not emitted and leaves the last-seen
  identifier as it was. A frame of type \<open>error\<close> is emitted and leaves the last-seen
  identifier as it was. Every other frame is emitted; it sets the last-seen identifier to
  its correlation identifier if that is present and not empty, and leaves it as it was
  otherwise.
\<close>

theorem onMessage_dispatch:
  "\<exists>s'. onMessage now (String_data (Parsed msg)) s = Inr s'
     \<and> lastPing s' = Some now
     \<and> (msg_t msg = Some ''ack'' \<longrightarrow>
           emitted s' = emitted s \<and> lastMessage s' = lastMessage s)
     \<and> (msg_t msg = Some ''error'' \<longrightarrow>
           emitted s' = emitted s @ [msg] \<and> lastMessage s' = lastMessage s)
     \<and> (msg_t msg \<noteq> Some ''ack'' \<and> msg_t msg \<noteq> Some ''error'' \<longrightarrow>
           emitted s' = emitted s @ [msg]
           \<and> lastMessage s' = (if truthy_str (msg_i msg) then msg_i msg else lastMessage s))"
  by (simp add: onMessage_parsed)

theorem onMessage_dispatch_witness:
  "(\<exists>s'. onMessage 2000 (String_data (Parsed (chat_m1\<lparr>msg_t := Some ''ack'', msg_i := Some ''a7''\<rparr>)))
            received = Inr s'
       \<and> lastPing s' = Some 2000 \<and> emitted s' = [chat_m1] \<and> lastMessage s' = Some ''m1'')
   \<and> (\<exists>s'. onMessage 2000 (String_data (Parsed (chat_m1\<lparr>msg_t := Some ''error'', msg_i := Some ''e9''\<rparr>)))
            received = Inr s'
       \<and> lastPing s' = Some 2000
       \<and> emitted s' = [chat_m1, chat_m1\<lparr>msg_t := Some ''error'', msg_i := Some ''e9''\<rparr>]
       \<and> lastMessage s' = Some ''m1'')
   \<and> (\<exists>s'. onMessage 2000 (String_data (Parsed (chat_m1\<lparr>msg_i := Some ''m2''\<rparr>))) received = Inr s'
       \<and> lastPing s' = Some 2000
       \<and> emitted s' = [chat_m1, chat_m1\<lparr>msg_i := Some ''m2''\<rparr>]
       \<and> lastMessage s' = Some ''m2'')"
proof -
  have 1: "emitted received = [chat_m1]" "lastMessage received = Some ''m1''"
    by (simp_all add: received_eq)
  have 2: "msg_t chat_m1 = Some ''chat''" by (simp add: chat_m1_def)
  show ?thesis
    using onMessage_dispatch [of 2000 "chat_m1\<lparr>msg_t := Some ''ack'', msg_i := Some ''a7''\<rparr>" received]
      onMessage_dispatch [of 2000 "chat_m1\<lparr>msg_t := Some ''error'', msg_i := Some ''e9''\<rparr>" received]
      onMessage_dispatch [of 2000 "chat_m1\<lparr>msg_i := Some ''m2''\<rparr>" received] 1 2
    by auto
qed

text \<open>
  Claim C10. For every inbound text frame whose envelope has no correlation identifier, or
  an empty one, the last-seen identifier is left as it was, whatever the type of the frame;
  the activity timestamp is set, and the frame is emitted unless its type is \<open>ack\<close>.
\<close>

theorem onMessage_without_id:
  assumes "msg_i msg = None \<or> msg_i msg = Some []"
  shows "\<exists>s'. onMessage now (String_data (Parsed msg)) s = Inr s'
     \<and> lastMessage s' = lastMessage s
     \<and> lastPing s' = Some now
     \<and> (msg_t msg \<noteq> Some ''ack'' \<longrightarrow> emitted s' = emitted s @ [msg])
     \<and> (msg_t msg = Some ''ack'' \<longrightarrow> emitted s' = emitted s)"
proof -
  from assms have "\<not> truthy_str (msg_i msg)" by auto
  then show ?thesis by (simp add: onMessage_parsed)
qed

theorem onMessage_without_id_witness:
  "msg_i (chat_m1\<lparr>msg_i := None\<rparr>) = None
   \<and> msg_t (chat_m1\<lparr>msg_i := None\<rparr>) \<noteq> Some ''ack''
   \<and> (\<exists>s'. onMessage 2000 (String_data (Parsed (chat_m1\<lparr>msg_i := None\<rparr>))) received = Inr s'
       \<and> lastMessage s' = Some ''m1'' \<and> lastPing s' = Some 2000
       \<and> emitted s' = [chat_m1, chat_m1\<lparr>msg_i := None\<rparr>])"
proof -
  have 1: "emitted received = [chat_m1]" "lastMessage received = Some ''m1''"
    by (simp_all add: received_eq)
  have 2: "msg_t chat_m1 = Some ''chat''" by (simp add: chat_m1_def)
  show ?thesis
    using onMessage_without_id [of "chat_m1\<lparr>msg_i := None\<rparr>" 2000 received] 1 2
    by auto
qed

subsection \<open>Resynchronisation and replay\<close>

lemma ws_send_open_only_sockets:
  assumes "ws_is_open s"
  shows "\<exists>s' X. ws_send f s = Inr s' \<and> s' = s\<lparr>sockets := X\<rparr>
           \<and> outbox s' = outbox s @ [f] \<and> ws_is_open s'"
proof -
  from assms obtain k sk where k: "ws s = Some k" "socket_at s k = Some sk" "readyState sk = OPEN"
    by (auto simp: ws_is_open_def split: option.splits)
  then have kl: "k < length (sockets s)" "sockets s ! k = sk"
    by (auto simp: socket_at_def split: if_splits)
  let ?s' = "s\<lparr>sockets := (sockets s)[k := sk\<lparr>sent := sent sk @ [f]\<rparr>]\<rparr>"
  have 1: "ws_send f s = Inr ?s'"
    using k by (simp add: ws_send_def)
  have 2: "outbox ?s' = outbox s @ [f]" "ws_is_open ?s'"
    using k kl by (simp_all add: ws_is_open_def outbox_def socket_at_def)
  show ?thesis using 1 2 by blast
qed

lemma send_filters_open:
  "ws_is_open s \<Longrightarrow>
   \<exists>s' X. send_filters uuid n fs s = Inr s' \<and> s' = s\<lparr>sockets := X\<rparr>
      \<and> outbox s' = outbox s @ filter_frames uuid n fs \<and> ws_is_open s'"
proof (induction fs arbitrary: s n)
  case Nil
  have "s = s\<lparr>sockets := sockets s\<rparr>" by simp
  then have "\<exists>X. s = s\<lparr>sockets := X\<rparr>" by (rule exI)
  then show ?case using Nil by simp
next
  case (Cons a fs)
  obtain type flt where a: "a = (type, flt)" by (cases a)
  from ws_send_open_only_sockets [OF Cons.prems, of "Frame (uuid n) ''filter'' (P_filter type flt)"]
  obtain s1 X1 where s1: "ws_send (Frame (uuid n) ''filter'' (P_filter type flt)) s = Inr s1"
      "s1 = s\<lparr>sockets := X1\<rparr>"
      "outbox s1 = outbox s @ [Frame (uuid n) ''filter'' (P_filter type flt)]" "ws_is_open s1"
    by blast
  from Cons.IH [OF s1(4), of "Suc n"]
  obtain s' X where s': "send_filters uuid (Suc n) fs s1 = Inr s'" "s' = s1\<lparr>sockets := X\<rparr>"
      "outbox s' = outbox s1 @ filter_frames uuid (Suc n) fs" "ws_is_open s'"
    by blast
  have 1: "s' = s\<lparr>sockets := X\<rparr>"
    using s'(2) s1(2) by simp
  have 2: "send_filters uuid n (a # fs) s = Inr s'"
    using a s1(1) s'(1) by simp
  have 3: "outbox s' = outbox s @ filter_frames uuid n (a # fs)"
    using a s1(3) s'(3) by simp
  show ?case using 1 2 3 s'(4) by blast
qed



lemma filter_frames_type: "f \<in> set (filter_frames uuid n fs) \<Longrightarrow> frame_t f = ''filter''"
  by (induction fs arbitrary: n) auto

lemma joinRoomsFilter_open:
  assumes "ws_is_open s"
  shows "\<exists>s'. joinRoomsFilter prev uuid now now_log s = Inr s'
     \<and> outbox s' = outbox s @ filter_frames uuid 0 (filters s)
          @ [Frame (uuid (length (filters s))) ''join'' (P_channels (channels s))]
          @ replay_frames prev uuid now s"
proof -
  let ?j = "Frame (uuid (length (filters s))) ''join'' (P_channels (channels s))"
  from send_filters_open [OF assms, of uuid 0 "filters s"]
  obtain s1 X1 where s1: "send_filters uuid 0 (filters s) s = Inr s1" "s1 = s\<lparr>sockets := X1\<rparr>"
      "outbox s1 = outbox s @ filter_frames uuid 0 (filters s)" "ws_is_open s1"
    by blast
  from ws_send_open_only_sockets [OF s1(4), of ?j]
  obtain s2 X2 where s2: "ws_send ?j s1 = Inr s2" "s2 = s1\<lparr>sockets := X2\<rparr>"
      "outbox s2 = outbox s1 @ [?j]" "ws_is_open s2"
    by blast
  have s2s: "s2 = s\<lparr>sockets := X2\<rparr>" using s1(2) s2(2) by simp
  have c1: "channels s1 = channels s" using s1(2) by simp
  have f2: "lastMessage s2 = lastMessage s" "replayMaxTime s2 = replayMaxTime s"
      "channels s2 = channels s" "filters s2 = filters s" "ws s2 = ws s"
    using s2s by simp_all
  show ?thesis
  proof (cases "replay_test (lastMessage s) prev now (replayMaxTime s)")
    case True
    let ?s3 = "s2\<lparr>console := console s2 @ [Will_replay]\<rparr>"
    let ?r = "Frame (uuid (Suc (length (filters s)))) ''replay'' (P_replay (channels s) (lastMessage s))"
    have o3: "ws_is_open ?s3" "outbox ?s3 = outbox s2"
      using s2(4) by (simp_all add: ws_is_open_cong [of ?s3 s2] outbox_cong [of ?s3 s2])
    from ws_send_open_only_sockets [OF o3(1), of ?r]
    obtain s4 where s4: "ws_send ?r ?s3 = Inr s4" "outbox s4 = outbox ?s3 @ [?r]"
      by blast
    have "joinRoomsFilter prev uuid now now_log s = Inr s4"
      using assms s1(1) s2(1) c1 f2 True s4(1) by (simp add: joinRoomsFilter_def Let_def)
    moreover have "outbox s4 = outbox s @ filter_frames uuid 0 (filters s) @ [?j] @ [?r]"
      using s4(2) o3(2) s2(3) s1(3) by simp
    ultimately show ?thesis using True by (simp add: replay_frames_def)
  next
    case False
    let ?s3 = "s2\<lparr>console := console s2 @
                  [No_replay (case prev of None \<Rightarrow> None
                              | Some p \<Rightarrow> if p \<noteq> 0 then Some (now_log - p) else None)]\<rparr>"
    have o3: "outbox ?s3 = outbox s2"
      by (simp add: outbox_cong [of ?s3 s2])
    have "joinRoomsFilter prev uuid now now_log s = Inr ?s3"
      using assms s1(1) s2(1) c1 f2 False by (simp add: joinRoomsFilter_def Let_def)
    moreover have "outbox ?s3 = outbox s @ filter_frames uuid 0 (filters s) @ [?j]"
      using o3 s2(3) s1(3) by simp
    ultimately show ?thesis using False by (simp add: replay_frames_def)
  qed
qed

lemmas run_defs = model_defs join_def set_add_def filter_spec_def map_get_def map_set_def
  ws_send_def onOpen_resume_def joinRoomsFilter_def replay_test_def onMessage_def onClose_def
  clearInterval_def retryConnection_def reconnect_callback_def example_inputs_def

lemma reconnected_eq:
  "reconnected =
    \<lparr>ws = Some 1, lastPing = Some 3000, monitorInterval = Some 2,
     reconnectTimeout = None, lastMessage = Some ''m1'',
     lastConnected = Some 3000,
     channels = [''server:events:1'', ''server:updates:1''],
     filters = [(''ACTIVITY'', Obj 1)], retryDelay = 0,
     replayMaxTime = 300000,
     sockets =
       [\<lparr>readyState = CLOSED,
          listeners =
            [(Ev_open, OnOpen), (Ev_close, OnClose),
             (Ev_message, OnMessage), (Ev_error, RetryConnection)],
          sent =
            [Frame ''u'' ''filter'' (P_filter ''ACTIVITY'' (Obj 1)),
             Frame ''ux'' ''join''
              (P_channels [''server:events:1'', ''server:updates:1''])]\<rparr>,
        \<lparr>readyState = OPEN,
          listeners =
            [(Ev_open, OnOpen), (Ev_close, OnClose),
             (Ev_message, OnMessage), (Ev_error, RetryConnection)],
          sent = []\<rparr>],
     timers = [(2, Monitor_callback, 30000)], timer_count = 3,
     suspended = [Some 1000],
     emitted = [chat_m1],
     console = [No_replay None]\<rparr>"
  by (simp add: reconnected_def run_defs chat_m1_def)



lemma no_replay_among_filters:
  "filter (\<lambda>f. frame_t f = ''replay'') (filter_frames uuid n fs) = []"
  by (induction fs arbitrary: n) auto

lemma reconnected_facts:
  "ws_is_open reconnected" "lastMessage reconnected = Some ''m1''"
  "filters reconnected = [(''ACTIVITY'', Obj 1)]"
  "channels reconnected = [''server:events:1'', ''server:updates:1'']"
  "replayMaxTime reconnected = 300000" "outbox reconnected = []"
  by (simp_all add: reconnected_eq ws_is_open_def socket_at_def outbox_def)





text \<open>
  Claim C1. After the resynchronisation on an open socket, the replay frames sent are: the
  one frame for the whole channel set starting at the last-seen identifier, if a last-seen
  identifier exists, a previous connection timestamp exists and \<open>now\<close> minus that
  timestamp is less than \<open>replayMaxTime\<close>; none otherwise. In both cases the call returns
  normally. The client tests existence by truthiness, so the statement is for a last-seen
  identifier that is not the empty string (\<open>onMessage\<close> never stores one) and a
  timestamp that is not 0 (the clock at its epoch).
\<close>

theorem replay_gating:
  assumes "ws_is_open s" and "lastMessage s \<noteq> Some []" and "prev \<noteq> Some 0"
  shows "\<exists>s' fs. joinRoomsFilter prev uuid now now_log s = Inr s'
           \<and> outbox s' = outbox s @ fs
           \<and> filter (\<lambda>f. frame_t f = ''replay'') fs =
               (if lastMessage s \<noteq> None \<and> prev \<noteq> None
                   \<and> (\<forall>p. prev = Some p \<longrightarrow> now - p < replayMaxTime s)
                then [Frame (uuid (Suc (length (filters s)))) ''replay''
                        (P_replay (channels s) (lastMessage s))]
                else [])"
proof -
  let ?fs = "filter_frames uuid 0 (filters s)
          @ [Frame (uuid (length (filters s))) ''join'' (P_channels (channels s))]
          @ replay_frames prev uuid now s"
  from joinRoomsFilter_open [OF assms(1), of prev uuid now now_log]
  obtain s' where s': "joinRoomsFilter prev uuid now now_log s = Inr s'"
      "outbox s' = outbox s @ ?fs"
    by blast
  have t: "replay_test (lastMessage s) prev now (replayMaxTime s)
         = (lastMessage s \<noteq> None \<and> prev \<noteq> None
             \<and> (\<forall>p. prev = Some p \<longrightarrow> now - p < replayMaxTime s))"
    using assms(2,3)
    by (cases "lastMessage s"; cases prev) (simp_all add: replay_test_def)
  have "filter (\<lambda>f. frame_t f = ''replay'') ?fs = replay_frames prev uuid now s"
    by (simp add: no_replay_among_filters replay_frames_def)
  then have "filter (\<lambda>f. frame_t f = ''replay'') ?fs =
               (if lastMessage s \<noteq> None \<and> prev \<noteq> None
                   \<and> (\<forall>p. prev = Some p \<longrightarrow> now - p < replayMaxTime s)
                then [Frame (uuid (Suc (length (filters s)))) ''replay''
                        (P_replay (channels s) (lastMessage s))]
                else [])"
    using t by (simp add: replay_frames_def)
  with s' show ?thesis by blast
qed

theorem replay_gating_witness:
  "ws_is_open reconnected \<and> lastMessage reconnected = Some ''m1''
   \<and> (\<exists>s' fs. joinRoomsFilter (Some 1000) (uuid_v1 example_inputs) 300999 300999 reconnected = Inr s'
          \<and> outbox s' = fs
          \<and> filter (\<lambda>f. frame_t f = ''replay'') fs =
               [Frame ''uxx'' ''replay''
                  (P_replay [''server:events:1'', ''server:updates:1''] (Some ''m1''))])
   \<and> (\<exists>s' fs. joinRoomsFilter (Some 1000) (uuid_v1 example_inputs) 301001 301001 reconnected = Inr s'
          \<and> outbox s' = fs
          \<and> filter (\<lambda>f. frame_t f = ''replay'') fs = [])"
  using replay_gating [of reconnected "Some 1000" "uuid_v1 example_inputs" 300999 300999]
    replay_gating [of reconnected "Some 1000" "uuid_v1 example_inputs" 301001 301001]
    reconnected_facts
  by (simp add: example_inputs_def)

subsection \<open>Closing, errors and reconnection\<close>

lemma setupConnection_eq:
  "setupConnection s = s\<lparr>sockets := sockets s @ [fresh_socket], ws := Some (length (sockets s))\<rparr>"
  by (simp add: setupConnection_def addEventListener_def update_socket_def socket_at_def Let_def
        fresh_socket_def)

lemma close_no_handle: "ws s = None \<Longrightarrow> close s = s"
  by (simp add: close_def)

lemma disconnected_eq:
  "disconnected =
    \<lparr>ws = None, lastPing = Some 1000, monitorInterval = None,
     reconnectTimeout = Some 1, lastMessage = None,
     lastConnected = Some 1000, channels = [], filters = [], retryDelay = 8,
     replayMaxTime = 300000,
     sockets = [fresh_socket\<lparr>readyState := CLOSED\<rparr>],
     timers = [(1, Reconnect_callback, 0)], timer_count = 2,
     suspended = [None], emitted = [], console = []\<rparr>"
  by (simp add: disconnected_def run_defs fresh_socket_def)

lemma retryConnection_eq:
  "retryConnection r s =
     s\<lparr>timers := (case reconnectTimeout s of
                    None \<Rightarrow> timers s
                  | Some h \<Rightarrow> filter (\<lambda>x. fst x \<noteq> h) (timers s))
                 @ [(timer_count s, Reconnect_callback, retryDelay s * 1000)],
       timer_count := Suc (timer_count s),
       reconnectTimeout := Some (timer_count s),
       retryDelay := min 60 (retryDelay s + (\<lfloor>times_double r 6\<rfloor> + 5))\<rparr>"
  by (cases "reconnectTimeout s")
     (simp_all add: retryConnection_def setTimeout_def clearTimeout_def Let_def)

lemma onClose_eq:
  "onClose r s =
     retryConnection r
       (s\<lparr>ws := None,
          timers := (case monitorInterval s of
                       None \<Rightarrow> timers s
                     | Some h \<Rightarrow> filter (\<lambda>x. fst x \<noteq> h) (timers s)),
          monitorInterval := None\<rparr>)"
proof (cases "monitorInterval s")
  case None
  then have e: "s\<lparr>ws := None,
          timers := (case monitorInterval s of
                       None \<Rightarrow> timers s
                     | Some h \<Rightarrow> filter (\<lambda>x. fst x \<noteq> h) (timers s)),
          monitorInterval := None\<rparr> = s\<lparr>ws := None\<rparr>"
    by (cases s) simp
  have "onClose r s = retryConnection r (s\<lparr>ws := None\<rparr>)"
    using None by (simp add: onClose_def Let_def)
  then show ?thesis by (simp only: e)
next
  case (Some h)
  then show ?thesis
    by (simp add: onClose_def clearInterval_def clearTimeout_def Let_def)
qed

text \<open>
  Claim C9. In every state where the client holds no socket but a reconnect timer is
  pending, \<open>close()\<close> leaves the whole state as it is: the timer stays pending, and when
  it expires after the call it creates a new socket and makes it the client's socket.
\<close>

theorem close_without_handle_keeps_reconnect:
  assumes "ws s = None" and "reconnectTimeout s = Some h"
    and "map_of (timers s) h = Some (Reconnect_callback, ms)"
  shows "close s = s
     \<and> reconnectTimeout (close s) = Some h
     \<and> map_of (timers (close s)) h = Some (Reconnect_callback, ms)
     \<and> (\<exists>s'. run [(inp, Call_close), (inp', Timer_fires h)] s = Inr s'
            \<and> ws s' = Some (length (sockets s))
            \<and> socket_at s' (length (sockets s)) = Some fresh_socket)"
proof -
  have c: "close s = s" using assms(1) by (rule close_no_handle)
  let ?s1 = "s\<lparr>timers := filter (\<lambda>x. fst x \<noteq> h) (timers s)\<rparr>"
  let ?s' = "setupConnection (?s1\<lparr>reconnectTimeout := None\<rparr>)"
  have "step inp' (Timer_fires h) s = Inr ?s'"
    using assms(3) by (simp add: reconnect_callback_def)
  then have r: "run [(inp, Call_close), (inp', Timer_fires h)] s = Inr ?s'"
    using c by simp
  have "ws ?s' = Some (length (sockets s))" "socket_at ?s' (length (sockets s)) = Some fresh_socket"
    by (simp_all add: setupConnection_eq socket_at_def)
  with r c assms show ?thesis by simp
qed

theorem close_without_handle_keeps_reconnect_witness:
  "ws disconnected = None \<and> reconnectTimeout disconnected = Some 1
   \<and> map_of (timers disconnected) 1 = Some (Reconnect_callback, 0)
   \<and> close disconnected = disconnected
   \<and> (\<exists>s'. run [(example_inputs, Call_close), (example_inputs, Timer_fires 1)] disconnected = Inr s'
          \<and> ws s' = Some 1 \<and> socket_at s' 1 = Some fresh_socket)"
proof -
  have 1: "ws disconnected = None" "reconnectTimeout disconnected = Some 1"
      "map_of (timers disconnected) 1 = Some (Reconnect_callback, 0)"
      "length (sockets disconnected) = 1"
    by (simp_all add: disconnected_eq)
  from close_without_handle_keeps_reconnect [OF 1(1,2,3), of example_inputs example_inputs] 1
  show ?thesis by (simp del: run.simps)
qed

text \<open>
  Claim C2 says that \<open>close()\<close> stops the liveness timer. It does not: \<open>close\<close> never
  touches \<open>monitorInterval\<close>, while \<open>onClose\<close> clears it. On the client that has
  connected, \<open>close()\<close> clears the handle and leaves the liveness timer pending; each
  time that timer expires it sets the next one, and once the last activity is more than a
  minute old it logs a stalled connection at every expiry.
\<close>

theorem close_keeps_liveness_timer:
  "ws connected = Some 0 \<and> monitorInterval connected = Some 0
   \<and> timers connected = [(0, Monitor_callback, 30000)]
   \<and> ws (close connected) = None
   \<and> monitorInterval (close connected) = Some 0
   \<and> timers (close connected) = [(0, Monitor_callback, 30000)]
   \<and> timers (state_of (step (example_inputs\<lparr>date_now := 31000\<rparr>) (Timer_fires 0)
                       (close connected)))
       = [(1, Monitor_callback, 30000)]
   \<and> console (state_of (run [(example_inputs\<lparr>date_now := 31000\<rparr>, Timer_fires 0),
                             (example_inputs\<lparr>date_now := 61000\<rparr>, Timer_fires 1),
                             (example_inputs\<lparr>date_now := 91000\<rparr>, Timer_fires 2),
                             (example_inputs\<lparr>date_now := 121000\<rparr>, Timer_fires 3)]
                         (close connected)))
       = [Closing_stalled, Closing_stalled]
   \<and> timers (state_of (run [(example_inputs\<lparr>date_now := 31000\<rparr>, Timer_fires 0),
                            (example_inputs\<lparr>date_now := 61000\<rparr>, Timer_fires 1),
                            (example_inputs\<lparr>date_now := 91000\<rparr>, Timer_fires 2),
                            (example_inputs\<lparr>date_now := 121000\<rparr>, Timer_fires 3)]
                        (close connected)))
       = [(4, Monitor_callback, 30000)]"
  by (simp add: connected_eq close_def removeEventListener_def socket_close_def update_socket_def
        socket_at_def monitor_callback_def ws_is_open_def monitorConnection_def setTimeout_def
        clearTimeout_def example_inputs_def Let_def)

subsection \<open>The backoff policy over runs\<close>

lemma wf_listeners_fresh: "wf_listeners (listeners fresh_socket)"
  by (simp add: wf_listeners_def fresh_socket_def)

lemma wf_listeners_remove1: "wf_listeners ls \<Longrightarrow> wf_listeners (remove1 x ls)"
proof -
  assume a: "wf_listeners ls"
  have "length (filter (\<lambda>x. fst x = Ev_open) (remove1 x ls))
          \<le> length (filter (\<lambda>x. fst x = Ev_open) ls)"
    by (induction ls) auto
  moreover have "set (remove1 x ls) \<subseteq> set ls" by (rule set_remove1_subset)
  ultimately show ?thesis using a by (auto simp: wf_listeners_def)
qed

lemma wf_listeners_add_OnMsg: "wf_listeners ls \<Longrightarrow> wf_listeners (ls @ [(Ev_message, OnMsg a p)])"
  by (auto simp: wf_listeners_def)

lemma socks_ok_list_update:
  "socks_ok xs \<Longrightarrow> wf_listeners (listeners y) \<Longrightarrow> socks_ok (xs[k := y])"
proof -
  assume a: "socks_ok xs" "wf_listeners (listeners y)"
  have "set (xs[k := y]) \<subseteq> insert y (set xs)" by (rule set_update_subset_insert)
  with a show ?thesis by (auto simp: socks_ok_def)
qed

lemma update_socket_fields [simp]:
  "ws (update_socket k f s) = ws s"
  "lastPing (update_socket k f s) = lastPing s"
  "monitorInterval (update_socket k f s) = monitorInterval s"
  "reconnectTimeout (update_socket k f s) = reconnectTimeout s"
  "lastMessage (update_socket k f s) = lastMessage s"
  "lastConnected (update_socket k f s) = lastConnected s"
  "channels (update_socket k f s) = channels s"
  "filters (update_socket k f s) = filters s"
  "retryDelay (update_socket k f s) = retryDelay s"
  "replayMaxTime (update_socket k f s) = replayMaxTime s"
  "timers (update_socket k f s) = timers s"
  "timer_count (update_socket k f s) = timer_count s"
  "suspended (update_socket k f s) = suspended s"
  "emitted (update_socket k f s) = emitted s"
  "console (update_socket k f s) = console s"
  by (simp_all add: update_socket_def split: option.splits)

lemma socks_ok_update_socket:
  assumes "socks_ok (sockets s)"
    and "\<And>sk. wf_listeners (listeners sk) \<Longrightarrow> wf_listeners (listeners (f sk))"
  shows "socks_ok (sockets (update_socket k f s))"
proof (cases "socket_at s k")
  case None
  then show ?thesis using assms(1) by (simp add: update_socket_def)
next
  case (Some sk)
  then have "sk \<in> set (sockets s)"
    by (auto simp: socket_at_def split: if_splits)
  then have "wf_listeners (listeners (f sk))"
    using assms by (simp add: socks_ok_def)
  then show ?thesis using Some assms(1)
    by (simp add: update_socket_def socks_ok_list_update)
qed

lemma invariant_update_socket:
  assumes "invariant s"
    and "\<And>sk. wf_listeners (listeners sk) \<Longrightarrow> wf_listeners (listeners (f sk))"
  shows "invariant (update_socket k f s)"
  using assms socks_ok_update_socket [of s f k]
  by (simp add: invariant_def)

lemma invariant_simps [simp]:
  "invariant (s\<lparr>ws := a\<rparr>) = invariant s"
  "invariant (s\<lparr>lastPing := b\<rparr>) = invariant s"
  "invariant (s\<lparr>monitorInterval := c\<rparr>) = invariant s"
  "invariant (s\<lparr>reconnectTimeout := d\<rparr>) = invariant s"
  "invariant (s\<lparr>lastConnected := e\<rparr>) = invariant s"
  "invariant (s\<lparr>channels := f\<rparr>) = invariant s"
  "invariant (s\<lparr>filters := g\<rparr>) = invariant s"
  "invariant (s\<lparr>timer_count := h\<rparr>) = invariant s"
  "invariant (s\<lparr>suspended := i\<rparr>) = invariant s"
  "invariant (s\<lparr>emitted := j\<rparr>) = invariant s"
  "invariant (s\<lparr>console := k\<rparr>) = invariant s"
  by (simp_all add: invariant_def)

lemma timers_ok_filter: "timers_ok ts \<Longrightarrow> timers_ok (filter P ts)"
  by (simp add: timers_ok_def)

lemma invariant_clearTimeout: "invariant s \<Longrightarrow> invariant (clearTimeout h s)"
  by (simp add: invariant_def clearTimeout_def timers_ok_filter)

lemma invariant_timers_filter: "invariant s \<Longrightarrow> invariant (s\<lparr>timers := filter P (timers s)\<rparr>)"
  by (simp add: invariant_def timers_ok_filter)

lemma clearTimeout_retryDelay [simp]: "retryDelay (clearTimeout h s) = retryDelay s"
  by (simp add: clearTimeout_def)

lemma invariant_setupConnection: "invariant s \<Longrightarrow> invariant (setupConnection s)"
  by (simp add: setupConnection_eq invariant_def socks_ok_def wf_listeners_fresh)

lemma setupConnection_retryDelay [simp]: "retryDelay (setupConnection s) = retryDelay s"
  by (simp add: setupConnection_eq)

lemma backoff_increment:
  assumes "0 \<le> r" and "r < 1" and "is_double r"
  shows "5 \<le> \<lfloor>times_double r 6\<rfloor> + 5 \<and> \<lfloor>times_double r 6\<rfloor> + 5 \<le> 10"
proof -
  have "0 \<le> times_double r 6" "times_double r 6 < 6"
    using assms by (rule times_double_6_bounds)+
  then have "0 \<le> \<lfloor>times_double r 6\<rfloor>" "\<lfloor>times_double r 6\<rfloor> < 6"
    by (simp_all add: floor_less_iff)
  then show ?thesis by simp
qed

lemma invariant_retryConnection:
  assumes "invariant s" and "0 \<le> r" and "r < 1" and "is_double r"
  shows "invariant (retryConnection r s)"
proof -
  from backoff_increment [OF assms(2,3,4)]
  have k: "5 \<le> \<lfloor>times_double r 6\<rfloor> + 5" "\<lfloor>times_double r 6\<rfloor> + 5 \<le> 10" by simp_all
  have d: "0 \<le> retryDelay s" "retryDelay s \<le> 60" using assms(1) by (simp_all add: invariant_def)
  have t: "timers_ok (timers s)" using assms(1) by (simp add: invariant_def)
  have "timers_ok ((case reconnectTimeout s of None \<Rightarrow> timers s
                    | Some h \<Rightarrow> filter (\<lambda>x. fst x \<noteq> h) (timers s))
                   @ [(timer_count s, Reconnect_callback, retryDelay s * 1000)])"
    using t d by (cases "reconnectTimeout s") (auto simp: timers_ok_def)
  then show ?thesis using assms(1) k d
    by (simp add: retryConnection_eq invariant_def)
qed

lemma retryConnection_mono:
  assumes "retryDelay s \<le> 60" and "0 \<le> r" and "r < 1" and "is_double r"
  shows "retryDelay s \<le> retryDelay (retryConnection r s)"
  using backoff_increment [OF assms(2,3,4)] assms(1) by (simp add: retryConnection_eq)

lemma invariant_onClose:
  assumes "invariant s" and "0 \<le> r" and "r < 1" and "is_double r"
  shows "invariant (onClose r s)"
proof -
  have "invariant (s\<lparr>ws := None,
          timers := (case monitorInterval s of
                       None \<Rightarrow> timers s
                     | Some h \<Rightarrow> filter (\<lambda>x. fst x \<noteq> h) (timers s)),
          monitorInterval := None\<rparr>)"
    using assms(1) by (cases "monitorInterval s") (simp_all add: invariant_def timers_ok_filter)
  then show ?thesis unfolding onClose_eq using assms(2,3,4) by (rule invariant_retryConnection)
qed

lemma onClose_mono:
  assumes "retryDelay s \<le> 60" and "0 \<le> r" and "r < 1" and "is_double r"
  shows "retryDelay s \<le> retryDelay (onClose r s)"
  using backoff_increment [OF assms(2,3,4)] assms(1) by (simp add: onClose_eq retryConnection_eq)

lemma quiet_refl [simp]: "quiet s s"
  by (simp add: quiet_def)

lemma quiet_trans: "quiet s s1 \<Longrightarrow> quiet s1 s2 \<Longrightarrow> quiet s s2"
  by (simp add: quiet_def)

lemma quiet_bind:
  assumes "quiet s (state_of r)" and "\<And>s1. r = Inr s1 \<Longrightarrow> quiet s1 (state_of (g s1))"
  shows "quiet s (state_of (case r of Inl e \<Rightarrow> Inl e | Inr s1 \<Rightarrow> g s1))"
proof (cases r)
  case (Inl e)
  then show ?thesis using assms(1) by simp
next
  case (Inr s1)
  then have "quiet s s1" using assms(1) by simp
  moreover have "quiet s1 (state_of (g s1))" using Inr by (rule assms(2))
  ultimately show ?thesis using Inr by (simp add: quiet_trans)
qed

lemma quiet_simps [simp]:
  "quiet s (s\<lparr>ws := a\<rparr>)"
  "quiet s (s\<lparr>lastPing := b\<rparr>)"
  "quiet s (s\<lparr>monitorInterval := c\<rparr>)"
  "quiet s (s\<lparr>reconnectTimeout := d\<rparr>)"
  "quiet s (s\<lparr>lastConnected := e\<rparr>)"
  "quiet s (s\<lparr>channels := f\<rparr>)"
  "quiet s (s\<lparr>filters := g\<rparr>)"
  "quiet s (s\<lparr>timer_count := h\<rparr>)"
  "quiet s (s\<lparr>suspended := i\<rparr>)"
  "quiet s (s\<lparr>emitted := j\<rparr>)"
  "quiet s (s\<lparr>console := k\<rparr>)"
  by (simp_all add: quiet_def)

lemma quiet_update_socket:
  assumes "\<And>sk. wf_listeners (listeners sk) \<Longrightarrow> wf_listeners (listeners (f sk))"
  shows "quiet s (update_socket k f s)"
  using assms by (simp add: quiet_def invariant_update_socket)

lemma quiet_ws_send: "quiet s (state_of (ws_send f s))"
proof (cases "ws s")
  case None
  then show ?thesis by (simp add: ws_send_def)
next
  case (Some k)
  show ?thesis
  proof (cases "socket_at s k")
    case None
    then show ?thesis using Some by (simp add: ws_send_def)
  next
    case (Some sk)
    have u: "s\<lparr>sockets := (sockets s)[k := sk\<lparr>sent := sent sk @ [f]\<rparr>]\<rparr>
               = update_socket k (\<lambda>sk. sk\<lparr>sent := sent sk @ [f]\<rparr>) s"
      using Some by (simp add: update_socket_def)
    have "quiet s (update_socket k (\<lambda>sk. sk\<lparr>sent := sent sk @ [f]\<rparr>) s)"
      by (rule quiet_update_socket) simp
    then show ?thesis using Some \<open>ws s = Some k\<close> u
      by (cases "readyState sk") (simp_all add: ws_send_def)
  qed
qed

lemma quiet_clearTimeout: "quiet s (clearTimeout h s)"
  by (simp add: quiet_def invariant_clearTimeout)

lemma quiet_timers_filter: "quiet s (s\<lparr>timers := filter P (timers s)\<rparr>)"
  by (simp add: quiet_def invariant_timers_filter)

lemma quiet_setupConnection: "quiet s (setupConnection s)"
  by (simp add: quiet_def invariant_setupConnection)

lemma quiet_join: "quiet s (state_of (join uuid channel s))"
proof -
  let ?s1 = "s\<lparr>channels := set_add channel (channels s)\<rparr>"
  have "quiet s ?s1" by simp
  moreover have "quiet ?s1 (state_of (ws_send (Frame uuid ''join'' (P_channels [channel])) ?s1))"
    by (rule quiet_ws_send)
  ultimately have "quiet s (state_of (ws_send (Frame uuid ''join'' (P_channels [channel])) ?s1))"
    by (rule quiet_trans)
  then show ?thesis by (simp add: join_def Let_def)
qed

lemma quiet_leave: "quiet s (state_of (leave uuid channel s))"
proof -
  let ?s1 = "s\<lparr>channels := set_delete channel (channels s)\<rparr>"
  have "quiet s ?s1" by simp
  moreover have "quiet ?s1 (state_of (ws_send (Frame uuid ''leave'' (P_channels [channel])) ?s1))"
    by (rule quiet_ws_send)
  ultimately have "quiet s (state_of (ws_send (Frame uuid ''leave'' (P_channels [channel])) ?s1))"
    by (rule quiet_trans)
  then show ?thesis by (simp add: leave_def Let_def)
qed

lemma quiet_filter_spec: "quiet s (state_of (filter_spec uuid type flt s))"
proof -
  let ?s1 = "s\<lparr>filters := map_set type flt (filters s)\<rparr>"
  have "quiet s ?s1" by simp
  moreover have "quiet ?s1 (state_of (ws_send (Frame uuid ''filter'' (P_filter type flt)) ?s1))"
    by (rule quiet_ws_send)
  ultimately have "quiet s (state_of (ws_send (Frame uuid ''filter'' (P_filter type flt)) ?s1))"
    by (rule quiet_trans)
  then show ?thesis by (simp add: filter_spec_def Let_def)
qed

lemma quiet_removeEventListener: "quiet s (removeEventListener k ev l s)"
  unfolding removeEventListener_def
  by (rule quiet_update_socket) (simp add: wf_listeners_remove1)

lemma quiet_socket_close: "quiet s (socket_close k s)"
  unfolding socket_close_def by (rule quiet_update_socket) simp

lemma quiet_set_readyState: "quiet s (set_readyState k rs s)"
  unfolding set_readyState_def by (rule quiet_update_socket) simp

lemma quiet_cancel_reconnect:
  "quiet s (case reconnectTimeout s of
              None \<Rightarrow> s
            | Some h \<Rightarrow> (clearTimeout h s)\<lparr>reconnectTimeout := None\<rparr>)"
proof (cases "reconnectTimeout s")
  case None
  then show ?thesis by simp
next
  case (Some h)
  have "quiet s (clearTimeout h s)" by (rule quiet_clearTimeout)
  moreover have "quiet (clearTimeout h s) ((clearTimeout h s)\<lparr>reconnectTimeout := None\<rparr>)"
    by simp
  ultimately show ?thesis using Some by (simp add: quiet_trans)
qed

lemma quiet_close: "quiet s (close s)"
proof (cases "ws s")
  case None
  then show ?thesis by (simp add: close_def)
next
  case (Some k)
  let ?s1 = "removeEventListener k Ev_close OnClose s"
  let ?s2 = "removeEventListener k Ev_open OnOpen ?s1"
  let ?s3 = "removeEventListener k Ev_message OnMessage ?s2"
  let ?s4 = "removeEventListener k Ev_error RetryConnection ?s3"
  let ?s5 = "socket_close k ?s4"
  let ?s6 = "?s5\<lparr>ws := None\<rparr>"
  have "quiet s ?s4"
    by (intro quiet_trans [OF _ quiet_removeEventListener] quiet_removeEventListener)
  then have "quiet s ?s5" by (rule quiet_trans) (rule quiet_socket_close)
  then have "quiet s ?s6" by (rule quiet_trans) simp
  then have "quiet s (case reconnectTimeout ?s6 of
              None \<Rightarrow> ?s6
            | Some h \<Rightarrow> (clearTimeout h ?s6)\<lparr>reconnectTimeout := None\<rparr>)"
    by (rule quiet_trans) (rule quiet_cancel_reconnect)
  then show ?thesis using Some by (simp add: close_def Let_def)
qed

lemma quiet_open_ws: "quiet s (open_ws s)"
proof (cases "ws s")
  case (Some k)
  then show ?thesis by (simp add: open_ws_def)
next
  case None
  have "quiet s (case reconnectTimeout (setupConnection s) of
              None \<Rightarrow> setupConnection s
            | Some h \<Rightarrow> (clearTimeout h (setupConnection s))\<lparr>reconnectTimeout := None\<rparr>)"
    by (rule quiet_trans [OF quiet_setupConnection quiet_cancel_reconnect])
  then show ?thesis using None by (simp add: open_ws_def Let_def)
qed

lemma monitorConnection_eq:
  "monitorConnection s =
     s\<lparr>timers := (case monitorInterval s of
                    None \<Rightarrow> timers s
                  | Some h \<Rightarrow> filter (\<lambda>x. fst x \<noteq> h) (timers s))
                 @ [(timer_count s, Monitor_callback, 30000)],
       timer_count := Suc (timer_count s),
       monitorInterval := Some (timer_count s)\<rparr>"
  by (cases "monitorInterval s")
     (simp_all add: monitorConnection_def setTimeout_def clearTimeout_def Let_def)

lemma quiet_monitorConnection: "quiet s (monitorConnection s)"
proof -
  have "timers_ok (timers s) \<Longrightarrow>
        timers_ok ((case monitorInterval s of None \<Rightarrow> timers s
                    | Some h \<Rightarrow> filter (\<lambda>x. fst x \<noteq> h) (timers s))
                   @ [(timer_count s, Monitor_callback, 30000)])"
    by (cases "monitorInterval s") (auto simp: timers_ok_def)
  then show ?thesis
    by (simp add: monitorConnection_eq quiet_def invariant_def)
qed

lemma quiet_if: "quiet s a \<Longrightarrow> quiet s b \<Longrightarrow> quiet s (if c then a else b)"
  by simp

lemma quiet_monitor_callback: "quiet s (state_of (monitor_callback uuid now s))"
proof -
  have 1: "quiet s (state_of (if ws_is_open s then ws_send (Frame uuid ''ping'' P_absent) s
                              else Inr s))"
    by (simp add: quiet_ws_send)
  have 2: "quiet s1 (state_of
             (let s2 =
                (if truthy_num (lastPing s1)
                    \<and> (case lastPing s1 of None \<Rightarrow> False | Some lp \<Rightarrow> lp < now - 60000)
                 then
                   let s1a = s1\<lparr>console := console s1 @ [Closing_stalled]\<rparr>
                   in if ws_is_open s1a then open_ws (close s1a) else s1a
                 else s1)
              in Inr (monitorConnection s2) :: result))" for s1
  proof -
    let ?s1a = "s1\<lparr>console := console s1 @ [Closing_stalled]\<rparr>"
    have a: "quiet s1 ?s1a" by simp
    have "quiet ?s1a (open_ws (close ?s1a))"
      by (rule quiet_trans [OF quiet_close quiet_open_ws])
    with a have b: "quiet s1 (open_ws (close ?s1a))" by (rule quiet_trans)
    have "quiet s1 (if truthy_num (lastPing s1)
                    \<and> (case lastPing s1 of None \<Rightarrow> False | Some lp \<Rightarrow> lp < now - 60000)
              then if ws_is_open ?s1a then open_ws (close ?s1a) else ?s1a
              else s1)"
      by (rule quiet_if, rule quiet_if, rule b, rule a, rule quiet_refl)
    then have "quiet s1 (monitorConnection
             (if truthy_num (lastPing s1)
                    \<and> (case lastPing s1 of None \<Rightarrow> False | Some lp \<Rightarrow> lp < now - 60000)
              then if ws_is_open ?s1a then open_ws (close ?s1a) else ?s1a
              else s1))"
      by (rule quiet_trans) (rule quiet_monitorConnection)
    then show ?thesis unfolding Let_def state_of.simps .
  qed
  show ?thesis unfolding monitor_callback_def by (rule quiet_bind [OF 1 2])
qed

lemma quiet_lastMessage: "x \<noteq> Some [] \<Longrightarrow> quiet s (s\<lparr>lastMessage := x\<rparr>)"
  by (simp add: quiet_def invariant_def)

lemma quiet_onMessage: "quiet s (state_of (onMessage now dat s))"
proof (cases dat)
  case (Other_data pr)
  then show ?thesis by (simp add: onMessage_def)
next
  case (String_data pr)
  show ?thesis
  proof (cases pr)
    case Malformed
    then show ?thesis using String_data by (simp add: onMessage_def)
  next
    case Parsed_null
    then show ?thesis using String_data by (simp add: onMessage_def)
  next
    case (Parsed msg)
    let ?s1 = "s\<lparr>lastPing := Some now\<rparr>"
    let ?s2 = "if truthy_str (msg_i msg) \<and> msg_t msg \<noteq> Some ''error'' \<and> msg_t msg \<noteq> Some ''ack''
               then ?s1\<lparr>lastMessage := msg_i msg\<rparr> else ?s1"
    have 1: "quiet s ?s1" by simp
    have "truthy_str (msg_i msg) \<Longrightarrow> msg_i msg \<noteq> Some []" by auto
    then have "quiet ?s1 ?s2" by (simp add: quiet_lastMessage)
    with 1 have 2: "quiet s ?s2" by (rule quiet_trans)
    then have 3: "quiet s (?s2\<lparr>emitted := emitted ?s2 @ [msg]\<rparr>)"
      by (rule quiet_trans) simp
    have e: "onMessage now dat s =
               (if msg_t msg = Some ''ack'' then Inr ?s2
                else Inr (?s2\<lparr>emitted := emitted ?s2 @ [msg]\<rparr>))"
      using Parsed String_data by (simp add: onMessage_def Let_def)
    show ?thesis
    proof (cases "msg_t msg = Some ''ack''")
      case True
      with e have "state_of (onMessage now dat s) = ?s2" by simp
      with 2 show ?thesis by (simp only:)
    next
      case False
      with e have "state_of (onMessage now dat s) = ?s2\<lparr>emitted := emitted ?s2 @ [msg]\<rparr>" by simp
      with 3 show ?thesis by (simp only:)
    qed
  qed
qed

lemma quiet_send_filters: "quiet s (state_of (send_filters uuid n fs s))"
proof (induction fs arbitrary: s n)
  case Nil
  then show ?case by simp
next
  case (Cons a fs)
  obtain type flt where a: "a = (type, flt)" by (cases a)
  have "quiet s (state_of (case ws_send (Frame (uuid n) ''filter'' (P_filter type flt)) s of
                             Inl e \<Rightarrow> Inl e
                           | Inr s1 \<Rightarrow> send_filters uuid (Suc n) fs s1))"
    by (rule quiet_bind) (simp_all add: quiet_ws_send Cons.IH)
  then show ?case using a by simp
qed

lemma quiet_joinRoomsFilter: "quiet s (state_of (joinRoomsFilter prev uuid now now_log s))"
proof (cases "ws_is_open s")
  case False
  then show ?thesis by (simp add: joinRoomsFilter_def)
next
  case True
  have tail: "quiet s2 (state_of
       (if replay_test (lastMessage s2) prev now (replayMaxTime s2) then
          let s3 = s2\<lparr>console := console s2 @ [Will_replay]\<rparr>
          in ws_send (Frame (uuid (Suc (length (filters s)))) ''replay''
                       (P_replay (channels s3) (lastMessage s3))) s3
        else
          Inr (s2\<lparr>console := console s2 @
                 [No_replay (case prev of
                               None \<Rightarrow> None
                             | Some p \<Rightarrow> if p \<noteq> 0 then Some (now_log - p) else None)]\<rparr>)))" for s2
  proof -
    let ?s3 = "s2\<lparr>console := console s2 @ [Will_replay]\<rparr>"
    have "quiet s2 ?s3" by simp
    then have "quiet s2 (state_of (ws_send (Frame (uuid (Suc (length (filters s)))) ''replay''
                       (P_replay (channels ?s3) (lastMessage ?s3))) ?s3))"
      by (rule quiet_trans) (rule quiet_ws_send)
    then show ?thesis by (simp add: Let_def)
  qed
  have mid: "quiet s1 (state_of
       (case ws_send (Frame (uuid (length (filters s))) ''join'' (P_channels (channels s1))) s1 of
          Inl e \<Rightarrow> Inl e
        | Inr s2 \<Rightarrow>
            if replay_test (lastMessage s2) prev now (replayMaxTime s2) then
              let s3 = s2\<lparr>console := console s2 @ [Will_replay]\<rparr>
              in ws_send (Frame (uuid (Suc (length (filters s)))) ''replay''
                           (P_replay (channels s3) (lastMessage s3))) s3
            else
              Inr (s2\<lparr>console := console s2 @
                     [No_replay (case prev of
                                   None \<Rightarrow> None
                                 | Some p \<Rightarrow> if p \<noteq> 0 then Some (now_log - p) else None)]\<rparr>)))" for s1
    by (rule quiet_bind) (rule quiet_ws_send, rule tail)
  have "quiet s (state_of
       (case send_filters uuid 0 (filters s) s of
          Inl e \<Rightarrow> Inl e
        | Inr s1 \<Rightarrow>
       (case ws_send (Frame (uuid (length (filters s))) ''join'' (P_channels (channels s1))) s1 of
          Inl e \<Rightarrow> Inl e
        | Inr s2 \<Rightarrow>
            if replay_test (lastMessage s2) prev now (replayMaxTime s2) then
              let s3 = s2\<lparr>console := console s2 @ [Will_replay]\<rparr>
              in ws_send (Frame (uuid (Suc (length (filters s)))) ''replay''
                           (P_replay (channels s3) (lastMessage s3))) s3
            else
              Inr (s2\<lparr>console := console s2 @
                     [No_replay (case prev of
                                   None \<Rightarrow> None
                                 | Some p \<Rightarrow> if p \<noteq> 0 then Some (now_log - p) else None)]\<rparr>))))"
    by (rule quiet_bind) (rule quiet_send_filters, rule mid)
  then show ?thesis using True by (simp add: joinRoomsFilter_def)
qed

lemma quiet_addEventListener_OnMsg: "quiet s (addEventListener k Ev_message (OnMsg a p) s)"
  unfolding addEventListener_def
  by (rule quiet_update_socket) (simp add: wf_listeners_add_OnMsg)

lemma quiet_onOpen_resume:
  "quiet s (state_of (onOpen_resume prev token uuid now now_log s))"
proof (cases token)
  case None
  then show ?thesis by (simp add: onOpen_resume_def quiet_joinRoomsFilter)
next
  case (Some tok)
  show ?thesis
  proof (cases "tok = []")
    case True
    then show ?thesis using Some by (simp add: onOpen_resume_def quiet_joinRoomsFilter)
  next
    case False
    have l: "quiet s1 (state_of (case ws s1 of
                       None \<Rightarrow> Inl (TypeError, s1)
                     | Some k \<Rightarrow> Inr (addEventListener k Ev_message (OnMsg (uuid 0) prev) s1)))" for s1
      by (cases "ws s1") (simp_all add: quiet_addEventListener_OnMsg)
    have "quiet s (state_of (case ws_send (Frame (uuid 0) ''auth'' (P_token tok)) s of
                  Inl e \<Rightarrow> Inl e
                | Inr s1 \<Rightarrow>
                    (case ws s1 of
                       None \<Rightarrow> Inl (TypeError, s1)
                     | Some k \<Rightarrow> Inr (addEventListener k Ev_message (OnMsg (uuid 0) prev) s1))))"
      by (rule quiet_bind) (rule quiet_ws_send, rule l)
    then show ?thesis using Some False by (simp add: onOpen_resume_def Let_def)
  qed
qed

lemma quiet_onMsg: "quiet s (state_of (onMsg authId prev dat uuid now now_log s))"
proof -
  obtain pr where pr: "(case dat of String_data pr \<Rightarrow> pr | Other_data pr \<Rightarrow> pr) = pr" by simp
  show ?thesis
  proof (cases pr)
    case Malformed
    then show ?thesis using pr by (simp add: onMsg_def)
  next
    case Parsed_null
    then show ?thesis using pr by (simp add: onMsg_def)
  next
    case (Parsed msg)
    let ?s1 = "case ws s of None \<Rightarrow> s
               | Some k \<Rightarrow> removeEventListener k Ev_message (OnMsg authId prev) s"
    have "quiet s ?s1" by (cases "ws s") (simp_all add: quiet_removeEventListener)
    then have "quiet s (state_of (joinRoomsFilter prev uuid now now_log ?s1))"
      by (rule quiet_trans) (rule quiet_joinRoomsFilter)
    then show ?thesis using Parsed pr by (simp add: onMsg_def Let_def)
  qed
qed

lemma quiet_reconnect_callback: "quiet s (reconnect_callback s)"
  unfolding reconnect_callback_def
  by (rule quiet_trans [OF _ quiet_setupConnection]) simp

lemma quiet_invariant: "quiet s s' \<Longrightarrow> invariant s \<Longrightarrow> invariant s'"
  by (simp add: quiet_def)

lemma quiet_retryDelay: "quiet s s' \<Longrightarrow> retryDelay s' = retryDelay s"
  by (simp add: quiet_def)

lemma onOpen_eq:
  "onOpen now1 now2 s =
     (let s4 = monitorConnection (s\<lparr>lastConnected := Some now1, lastPing := Some now2,
                                     retryDelay := 0\<rparr>)
      in if ws_is_open s4 then s4\<lparr>suspended := suspended s4 @ [lastConnected s]\<rparr> else s4)"
  by (simp add: onOpen_def Let_def)

lemma onOpen_resets: "retryDelay (onOpen now1 now2 s) = 0"
  by (simp add: onOpen_eq Let_def monitorConnection_eq)

lemma invariant_onOpen:
  assumes "invariant s"
  shows "invariant (onOpen now1 now2 s)"
proof -
  let ?s3 = "s\<lparr>lastConnected := Some now1, lastPing := Some now2, retryDelay := 0\<rparr>"
  have "invariant ?s3" using assms by (simp add: invariant_def)
  then have "invariant (monitorConnection ?s3)"
    using quiet_monitorConnection by (rule quiet_invariant [rotated])
  then show ?thesis by (simp add: onOpen_eq Let_def)
qed

lemma call_listener_invariant:
  assumes "invariant s" and "valid_inputs inp"
  shows "invariant (state_of (call_listener inp dat l s))"
proof (cases l)
  case OnOpen
  then show ?thesis using assms by (simp add: invariant_onOpen)
next
  case OnClose
  then show ?thesis using assms by (simp add: invariant_onClose valid_inputs_def)
next
  case OnMessage
  then show ?thesis using assms quiet_onMessage [of s "date_now inp" dat]
    by (simp add: quiet_def)
next
  case RetryConnection
  then show ?thesis using assms by (simp add: invariant_retryConnection valid_inputs_def)
next
  case (OnMsg a p)
  then show ?thesis
    using assms quiet_onMsg [of s a p dat "uuid_v1 inp" "date_now inp" "date_now inp"]
    by (simp add: quiet_def)
qed

lemma call_listener_mono:
  assumes "invariant s" and "valid_inputs inp" and "l \<noteq> OnOpen"
  shows "retryDelay s \<le> retryDelay (state_of (call_listener inp dat l s))"
proof -
  have d: "retryDelay s \<le> 60" using assms(1) by (simp add: invariant_def)
  have r: "0 \<le> math_random inp" "math_random inp < 1" "is_double (math_random inp)"
    using assms(2) by (simp_all add: valid_inputs_def)
  show ?thesis
  proof (cases l)
    case OnOpen
    then show ?thesis using assms(3) by simp
  next
    case OnClose
    then show ?thesis using onClose_mono [OF d r] by simp
  next
    case OnMessage
    then show ?thesis using quiet_onMessage [of s "date_now inp" dat]
      by (simp add: quiet_def)
  next
    case RetryConnection
    then show ?thesis using retryConnection_mono [OF d r] by simp
  next
    case (OnMsg a p)
    then show ?thesis
      using quiet_onMsg [of s a p dat "uuid_v1 inp" "date_now inp" "date_now inp"]
      by (simp add: quiet_def)
  qed
qed

lemma call_listeners_invariant:
  "invariant s \<Longrightarrow> valid_inputs inp \<Longrightarrow> invariant (state_of (call_listeners inp dat ls s))"
proof (induction ls arbitrary: s)
  case Nil
  then show ?case by simp
next
  case (Cons l ls)
  have i: "invariant (state_of (call_listener inp dat l s))"
    using Cons.prems by (rule call_listener_invariant)
  show ?case
  proof (cases "call_listener inp dat l s")
    case (Inl e)
    then show ?thesis using i by simp
  next
    case (Inr s1)
    then have "invariant s1" using i by simp
    then have "invariant (state_of (call_listeners inp dat ls s1))"
      using Cons.prems(2) by (rule Cons.IH)
    then show ?thesis using Inr by simp
  qed
qed

lemma call_listeners_mono:
  "invariant s \<Longrightarrow> valid_inputs inp \<Longrightarrow> OnOpen \<notin> set ls \<Longrightarrow>
   retryDelay s \<le> retryDelay (state_of (call_listeners inp dat ls s))"
proof (induction ls arbitrary: s)
  case Nil
  then show ?case by simp
next
  case (Cons l ls)
  have l: "l \<noteq> OnOpen" "OnOpen \<notin> set ls" using Cons.prems(3) by auto
  have i: "invariant (state_of (call_listener inp dat l s))"
    using Cons.prems(1,2) by (rule call_listener_invariant)
  have m: "retryDelay s \<le> retryDelay (state_of (call_listener inp dat l s))"
    using Cons.prems(1,2) l(1) by (rule call_listener_mono)
  show ?case
  proof (cases "call_listener inp dat l s")
    case (Inl e)
    then show ?thesis using m by simp
  next
    case (Inr s1)
    then have "invariant s1" "retryDelay s \<le> retryDelay s1" using i m by simp_all
    moreover from this(1) have "retryDelay s1 \<le> retryDelay (state_of (call_listeners inp dat ls s1))"
      using Cons.prems(2) l(2) by (rule Cons.IH)
    ultimately show ?thesis using Inr by simp
  qed
qed

lemma dispatch_invariant:
  assumes "invariant s" and "valid_inputs inp"
  shows "invariant (state_of (dispatch inp k ev dat s))"
proof (cases "socket_at s k")
  case None
  then show ?thesis using assms(1) by (simp add: dispatch_def)
next
  case (Some sk)
  have "invariant (state_of (call_listeners inp dat
               (map snd (filter (\<lambda>x. fst x = ev) (listeners sk))) s))"
    using assms by (rule call_listeners_invariant)
  then show ?thesis using Some assms(1) by (simp add: dispatch_def Let_def)
qed

lemma socket_at_wf:
  assumes "invariant s" and "socket_at s k = Some sk"
  shows "wf_listeners (listeners sk)"
proof -
  have "k < length (sockets s) \<and> sk = sockets s ! k"
  proof (cases "k < length (sockets s)")
    case True
    then show ?thesis using assms(2) by (simp add: socket_at_def)
  next
    case False
    then show ?thesis using assms(2) by (simp add: socket_at_def)
  qed
  then have "sk \<in> set (sockets s)" by simp
  moreover have "socks_ok (sockets s)" using assms(1) by (simp add: invariant_def)
  ultimately show ?thesis by (simp add: socks_ok_def)
qed

lemma dispatch_mono:
  assumes "invariant s" and "valid_inputs inp" and "ev \<noteq> Ev_open"
  shows "retryDelay s \<le> retryDelay (state_of (dispatch inp k ev dat s))"
proof (cases "socket_at s k")
  case None
  then show ?thesis by (simp add: dispatch_def)
next
  case (Some sk)
  have "wf_listeners (listeners sk)" using assms(1) Some by (rule socket_at_wf)
  then have w: "\<forall>x \<in> set (listeners sk). (fst x = Ev_open) = (snd x = OnOpen)"
    by (simp add: wf_listeners_def)
  have "OnOpen \<notin> set (map snd (filter (\<lambda>x. fst x = ev) (listeners sk)))"
  proof
    assume "OnOpen \<in> set (map snd (filter (\<lambda>x. fst x = ev) (listeners sk)))"
    then obtain x where x: "x \<in> set (listeners sk)" "fst x = ev" "snd x = OnOpen"
      by auto
    from w x(1,3) have "fst x = Ev_open" by blast
    with x(2) assms(3) show False by simp
  qed
  with assms(1,2) have "retryDelay s \<le> retryDelay (state_of (call_listeners inp dat
               (map snd (filter (\<lambda>x. fst x = ev) (listeners sk))) s))"
    by (rule call_listeners_mono)
  then show ?thesis using Some by (simp add: dispatch_def Let_def)
qed

lemma invariant_set_readyState: "invariant s \<Longrightarrow> invariant (set_readyState k rs s)"
  using quiet_set_readyState by (rule quiet_invariant)

lemma set_readyState_retryDelay [simp]: "retryDelay (set_readyState k rs s) = retryDelay s"
  using quiet_set_readyState by (rule quiet_retryDelay)

lemma quiet_timer_fires:
  "quiet s (state_of (case map_of (timers s) h of
        None \<Rightarrow> Inr s
      | Some (cb, ms) \<Rightarrow>
          let s1 = s\<lparr>timers := filter (\<lambda>x. fst x \<noteq> h) (timers s)\<rparr>
          in (case cb of
                Reconnect_callback \<Rightarrow> Inr (reconnect_callback s1)
              | Monitor_callback \<Rightarrow> monitor_callback uuid now s1)))"
proof (cases "map_of (timers s) h")
  case None
  then show ?thesis by simp
next
  case (Some a)
  obtain cb ms where a: "a = (cb, ms)" by (cases a)
  let ?s1 = "s\<lparr>timers := filter (\<lambda>x. fst x \<noteq> h) (timers s)\<rparr>"
  have 1: "quiet s ?s1" by (rule quiet_timers_filter)
  show ?thesis
  proof (cases cb)
    case Reconnect_callback
    have "quiet s (reconnect_callback ?s1)"
      using 1 quiet_reconnect_callback by (rule quiet_trans)
    then show ?thesis using Some a Reconnect_callback by (simp add: Let_def)
  next
    case Monitor_callback
    have "quiet s (state_of (monitor_callback uuid now ?s1))"
      using 1 quiet_monitor_callback by (rule quiet_trans)
    then show ?thesis using Some a Monitor_callback by (simp add: Let_def)
  qed
qed

lemma quiet_token_resolves:
  "quiet s (state_of (onOpen_resume prev token uuid now now_log (s\<lparr>suspended := x\<rparr>)))"
proof -
  have "quiet s (s\<lparr>suspended := x\<rparr>)" by simp
  then show ?thesis using quiet_onOpen_resume by (rule quiet_trans)
qed

lemma quiet_step:
  assumes "\<forall>k. ev \<noteq> Socket_opens k" and "\<forall>k. ev \<noteq> Socket_closes k"
    and "\<forall>k. ev \<noteq> Socket_errors k" and "\<forall>k dat. ev \<noteq> Socket_message k dat"
  shows "quiet s (state_of (step inp ev s))"
proof (cases ev)
  case (Call_join c)
  then show ?thesis by (simp add: quiet_join)
next
  case (Call_leave c)
  then show ?thesis by (simp add: quiet_leave)
next
  case (Call_filter t f)
  then show ?thesis by (simp add: quiet_filter_spec)
next
  case Call_close
  then show ?thesis by (simp add: quiet_close)
next
  case Call_open
  then show ?thesis by (simp add: quiet_open_ws)
next
  case (Socket_opens k)
  then show ?thesis using assms by simp
next
  case (Socket_closes k)
  then show ?thesis using assms by simp
next
  case (Socket_errors k)
  then show ?thesis using assms by simp
next
  case (Socket_message k dat)
  then show ?thesis using assms by simp
next
  case (Timer_fires h)
  then show ?thesis using quiet_timer_fires [of s h "uuid_v1 inp 0" "date_now inp"] by simp
next
  case (Token_resolves j token)
  then show ?thesis by (simp add: quiet_token_resolves)
qed

lemma step_invariant:
  assumes "invariant s" and "valid_inputs inp"
  shows "invariant (state_of (step inp ev s))"
proof (cases ev)
  case (Socket_opens k)
  have "invariant (state_of (dispatch inp k Ev_open (Other_data Malformed) (set_readyState k OPEN s)))"
    using assms by (simp add: dispatch_invariant invariant_set_readyState)
  then show ?thesis using Socket_opens assms(1) by simp
next
  case (Socket_closes k)
  have "invariant (state_of (dispatch inp k Ev_close (Other_data Malformed) (set_readyState k CLOSED s)))"
    using assms by (simp add: dispatch_invariant invariant_set_readyState)
  then show ?thesis using Socket_closes assms(1) by simp
next
  case (Socket_errors k)
  have "invariant (state_of (dispatch inp k Ev_error (Other_data Malformed) (set_readyState k CLOSING s)))"
    using assms by (simp add: dispatch_invariant invariant_set_readyState)
  then show ?thesis using Socket_errors assms(1) by simp
next
  case (Socket_message k dat)
  then show ?thesis using assms by (simp add: dispatch_invariant)
next
  case (Call_join c)
  then show ?thesis using assms(1) quiet_step [of ev s inp] by (simp add: quiet_def)
next
  case (Call_leave c)
  then show ?thesis using assms(1) quiet_step [of ev s inp] by (simp add: quiet_def)
next
  case (Call_filter t f)
  then show ?thesis using assms(1) quiet_step [of ev s inp] by (simp add: quiet_def)
next
  case Call_close
  then show ?thesis using assms(1) quiet_step [of ev s inp] by (simp add: quiet_def)
next
  case Call_open
  then show ?thesis using assms(1) quiet_step [of ev s inp] by (simp add: quiet_def)
next
  case (Timer_fires h)
  then show ?thesis using assms(1) quiet_step [of ev s inp] by (simp add: quiet_def)
next
  case (Token_resolves j token)
  then show ?thesis using assms(1) quiet_step [of ev s inp] by (simp add: quiet_def)
qed

lemma step_mono:
  assumes "invariant s" and "valid_inputs inp" and "\<forall>k. ev \<noteq> Socket_opens k"
  shows "retryDelay s \<le> retryDelay (state_of (step inp ev s))"
proof (cases ev)
  case (Socket_opens k)
  then show ?thesis using assms(3) by simp
next
  case (Socket_closes k)
  have "retryDelay (set_readyState k CLOSED s)
          \<le> retryDelay (state_of (dispatch inp k Ev_close (Other_data Malformed)
                                    (set_readyState k CLOSED s)))"
    using assms(1,2) by (intro dispatch_mono invariant_set_readyState) simp_all
  then show ?thesis using Socket_closes by simp
next
  case (Socket_errors k)
  have "retryDelay (set_readyState k CLOSING s)
          \<le> retryDelay (state_of (dispatch inp k Ev_error (Other_data Malformed)
                                    (set_readyState k CLOSING s)))"
    using assms(1,2) by (intro dispatch_mono invariant_set_readyState) simp_all
  then show ?thesis using Socket_errors by simp
next
  case (Socket_message k dat)
  have "retryDelay s \<le> retryDelay (state_of (dispatch inp k Ev_message dat s))"
    using assms(1,2) by (rule dispatch_mono) simp
  then show ?thesis using Socket_message by simp
next
  case (Call_join c)
  then show ?thesis using quiet_step [of ev s inp] by (simp add: quiet_def)
next
  case (Call_leave c)
  then show ?thesis using quiet_step [of ev s inp] by (simp add: quiet_def)
next
  case (Call_filter t f)
  then show ?thesis using quiet_step [of ev s inp] by (simp add: quiet_def)
next
  case Call_close
  then show ?thesis using quiet_step [of ev s inp] by (simp add: quiet_def)
next
  case Call_open
  then show ?thesis using quiet_step [of ev s inp] by (simp add: quiet_def)
next
  case (Timer_fires h)
  then show ?thesis using quiet_step [of ev s inp] by (simp add: quiet_def)
next
  case (Token_resolves j token)
  then show ?thesis using quiet_step [of ev s inp] by (simp add: quiet_def)
qed

lemma run_invariant:
  "invariant s \<Longrightarrow> \<forall>x \<in> set tr. valid_inputs (fst x) \<Longrightarrow> invariant (state_of (run tr s))"
proof (induction tr arbitrary: s)
  case Nil
  then show ?case by simp
next
  case (Cons x tr)
  obtain inp ev where x: "x = (inp, ev)" by (cases x)
  have v: "valid_inputs inp" "\<forall>x \<in> set tr. valid_inputs (fst x)"
    using Cons.prems(2) x by simp_all
  have i: "invariant (state_of (step inp ev s))"
    using Cons.prems(1) v(1) by (rule step_invariant)
  show ?case
  proof (cases "step inp ev s")
    case (Inl e)
    then show ?thesis using i x by simp
  next
    case (Inr s1)
    then have "invariant s1" using i by simp
    then have "invariant (state_of (run tr s1))" using v(2) by (rule Cons.IH)
    then show ?thesis using Inr x by simp
  qed
qed

lemma invariant_constructor: "invariant (constructor m)"
  by (simp add: invariant_def constructor_def socks_ok_def timers_ok_def)

lemma singleton_by_length: "length xs \<le> 1 \<Longrightarrow> x \<in> set xs \<Longrightarrow> xs = [x]"
  by (cases xs) auto

lemma socket_at_set_readyState:
  "socket_at s k = Some sk \<Longrightarrow> socket_at (set_readyState k rs s) k = Some (sk\<lparr>readyState := rs\<rparr>)"
  by (simp add: set_readyState_def update_socket_def socket_at_def split: if_splits)

lemma open_event_runs_onOpen:
  assumes "invariant s" and "readyState_at s k = Some CONNECTING" and "socket_at s k = Some sk"
    and "(Ev_open, OnOpen) \<in> set (listeners sk)"
  shows "step inp (Socket_opens k) s
           = Inr (onOpen (date_now inp) (date_now inp) (set_readyState k OPEN s))"
proof -
  have "wf_listeners (listeners sk)" using assms(1,3) by (rule socket_at_wf)
  then have "length (filter (\<lambda>x. fst x = Ev_open) (listeners sk)) \<le> 1"
    by (simp add: wf_listeners_def)
  moreover have "(Ev_open, OnOpen) \<in> set (filter (\<lambda>x. fst x = Ev_open) (listeners sk))"
    using assms(4) by simp
  ultimately have f: "filter (\<lambda>x. fst x = Ev_open) (listeners sk) = [(Ev_open, OnOpen)]"
    by (rule singleton_by_length)
  have "socket_at (set_readyState k OPEN s) k = Some (sk\<lparr>readyState := OPEN\<rparr>)"
    using assms(3) by (rule socket_at_set_readyState)
  then have "dispatch inp k Ev_open (Other_data Malformed) (set_readyState k OPEN s)
          = Inr (onOpen (date_now inp) (date_now inp) (set_readyState k OPEN s))"
    using f by (simp add: dispatch_def Let_def)
  then show ?thesis using assms(2) by simp
qed

lemma run_lastMessage_nonempty:
  assumes "\<forall>x \<in> set tr. valid_inputs (fst x)"
  shows "lastMessage (state_of (run tr (constructor m))) \<noteq> Some []"
proof -
  have "invariant (state_of (run tr (constructor m)))"
    using invariant_constructor assms by (rule run_invariant)
  then show ?thesis by (simp add: invariant_def)
qed

text \<open>
  Claim C5. The reconnect delay of a new client is 0. In every state \<open>s\<close> that a run
  from a new client reaches, the delay lies between 0 and 60. A failure in \<open>s\<close> (the
  handler \<open>onClose\<close> or \<open>retryConnection\<close>) sets the reconnect timer after the
  current delay, in milliseconds, and then sets the delay to \<open>min 60 (delay + k)\<close> for an
  integer \<open>k\<close> from 5 to 10; the delay does not decrease and stays at most 60. No event
  other than the opening of a socket decreases the delay, so within one streak of failures
  the scheduled delays do not decrease. \<open>onOpen\<close> sets the delay to 0, and the open
  event of a connecting socket that still has its open listener runs \<open>onOpen\<close> exactly
  once.
\<close>

theorem backoff_policy:
  assumes "\<forall>x \<in> set tr. valid_inputs (fst x)" and "valid_inputs inp"
    and "s = state_of (run tr (constructor m))"
  shows "retryDelay (constructor m) = 0
     \<and> 0 \<le> retryDelay s \<and> retryDelay s \<le> 60
     \<and> (\<forall>f \<in> {onClose, retryConnection}.
           last (timers (f (math_random inp) s))
             = (timer_count s, Reconnect_callback, retryDelay s * 1000)
           \<and> (\<exists>k \<in> {5..10}. retryDelay (f (math_random inp) s) = min 60 (retryDelay s + k))
           \<and> retryDelay s \<le> retryDelay (f (math_random inp) s)
           \<and> retryDelay (f (math_random inp) s) \<le> 60)
     \<and> ((\<forall>k. ev \<noteq> Socket_opens k) \<longrightarrow> retryDelay s \<le> retryDelay (state_of (step inp ev s)))
     \<and> retryDelay (onOpen now1 now2 s) = 0
     \<and> (\<forall>k sk. readyState_at s k = Some CONNECTING \<and> socket_at s k = Some sk
                \<and> (Ev_open, OnOpen) \<in> set (listeners sk)
           \<longrightarrow> step inp (Socket_opens k) s
                 = Inr (onOpen (date_now inp) (date_now inp) (set_readyState k OPEN s)))"
proof -
  have i: "invariant s"
    unfolding assms(3) using invariant_constructor assms(1) by (rule run_invariant)
  then have d: "0 \<le> retryDelay s" "retryDelay s \<le> 60" by (simp_all add: invariant_def)
  have r: "0 \<le> math_random inp" "math_random inp < 1" "is_double (math_random inp)"
    using assms(2) by (simp_all add: valid_inputs_def)
  from backoff_increment [OF r]
  have k: "\<lfloor>times_double (math_random inp) 6\<rfloor> + 5 \<in> {5..10}" by simp
  have 1: "retryDelay (constructor m) = 0" by (simp add: constructor_def)
  have l: "last (timers (retryConnection (math_random inp) s))
             = (timer_count s, Reconnect_callback, retryDelay s * 1000)"
      "last (timers (onClose (math_random inp) s))
             = (timer_count s, Reconnect_callback, retryDelay s * 1000)"
    by (simp_all add: onClose_eq retryConnection_eq)
  have e: "retryDelay (retryConnection (math_random inp) s)
             = min 60 (retryDelay s + (\<lfloor>times_double (math_random inp) 6\<rfloor> + 5))"
      "retryDelay (onClose (math_random inp) s)
             = min 60 (retryDelay s + (\<lfloor>times_double (math_random inp) 6\<rfloor> + 5))"
    by (simp_all add: onClose_eq retryConnection_eq)
  have ex: "\<exists>k \<in> {5..10}. retryDelay (retryConnection (math_random inp) s) = min 60 (retryDelay s + k)"
      "\<exists>k \<in> {5..10}. retryDelay (onClose (math_random inp) s) = min 60 (retryDelay s + k)"
    using e k by blast+
  have mono: "retryDelay s \<le> retryDelay (retryConnection (math_random inp) s)"
      "retryDelay s \<le> retryDelay (onClose (math_random inp) s)"
    using retryConnection_mono [OF d(2) r] onClose_mono [OF d(2) r] by simp_all
  have le: "retryDelay (retryConnection (math_random inp) s) \<le> 60"
      "retryDelay (onClose (math_random inp) s) \<le> 60"
    using e by simp_all
  have 2: "\<forall>f \<in> {onClose, retryConnection}.
           last (timers (f (math_random inp) s))
             = (timer_count s, Reconnect_callback, retryDelay s * 1000)
           \<and> (\<exists>k \<in> {5..10}. retryDelay (f (math_random inp) s) = min 60 (retryDelay s + k))
           \<and> retryDelay s \<le> retryDelay (f (math_random inp) s)
           \<and> retryDelay (f (math_random inp) s) \<le> 60"
    using l ex mono le by blast
  have 3: "(\<forall>k. ev \<noteq> Socket_opens k) \<longrightarrow> retryDelay s \<le> retryDelay (state_of (step inp ev s))"
    using i assms(2) by (blast intro: step_mono)
  have 4: "retryDelay (onOpen now1 now2 s) = 0" by (rule onOpen_resets)
  have 5: "\<forall>k sk. readyState_at s k = Some CONNECTING \<and> socket_at s k = Some sk
                \<and> (Ev_open, OnOpen) \<in> set (listeners sk)
           \<longrightarrow> step inp (Socket_opens k) s
                 = Inr (onOpen (date_now inp) (date_now inp) (set_readyState k OPEN s))"
    using i by (blast intro: open_event_runs_onOpen)
  show ?thesis using 1 d 2 3 4 5 by blast
qed

lemma retrying_eq:
  "retrying =
    \<lparr>ws = Some 1, lastPing = None, monitorInterval = None,
     reconnectTimeout = None, lastMessage = None, lastConnected = None,
     channels = [], filters = [], retryDelay = 16, replayMaxTime = 300000,
     sockets = [fresh_socket\<lparr>readyState := CLOSED\<rparr>, fresh_socket],
     timers = [], timer_count = 2, suspended = [], emitted = [],
     console = []\<rparr>"
  by (simp add: retrying_def run_defs fresh_socket_def)

theorem backoff_policy_witness:
  "valid_inputs example_inputs
   \<and> retryDelay (constructor 300000) = 0
   \<and> retryDelay retrying = 16
   \<and> last (timers (retryConnection (1/2) retrying)) = (2, Reconnect_callback, 16000)
   \<and> retryDelay (retryConnection (1/2) retrying) = 24
   \<and> retryDelay retrying \<le> retryDelay (state_of (step example_inputs (Socket_errors 1) retrying))
   \<and> readyState_at retrying 1 = Some CONNECTING
   \<and> step example_inputs (Socket_opens 1) retrying
        = Inr (onOpen 1000 1000 (set_readyState 1 OPEN retrying))
   \<and> retryDelay (onOpen 1000 1000 retrying) = 0"
proof -
  have v: "valid_inputs example_inputs"
    by (simp add: valid_inputs_def example_inputs_def)
  then have tr: "\<forall>x \<in> set [(example_inputs, Call_open), (example_inputs, Socket_errors 0),
                    (example_inputs, Socket_closes 0), (example_inputs, Timer_fires 1)].
                 valid_inputs (fst x)"
    by simp
  have f: "retryDelay retrying = 16" "timer_count retrying = 2"
      "math_random example_inputs = 1/2" "date_now example_inputs = 1000"
      "readyState_at retrying 1 = Some CONNECTING" "socket_at retrying 1 = Some fresh_socket"
      "(Ev_open, OnOpen) \<in> set (listeners fresh_socket)"
    by (simp_all add: retrying_eq example_inputs_def readyState_at_def socket_at_def
          fresh_socket_def)
  have g: "retryDelay (retryConnection (1/2) retrying) = 24"
    by (simp add: retryConnection_eq f)
  from backoff_policy [OF tr v retrying_def, of "Socket_errors 1" 1000 1000]
  have "retryDelay (constructor 300000) = 0"
    "last (timers (retryConnection (math_random example_inputs) retrying))
       = (timer_count retrying, Reconnect_callback, retryDelay retrying * 1000)"
    "retryDelay retrying
       \<le> retryDelay (state_of (step example_inputs (Socket_errors 1) retrying))"
    "readyState_at retrying 1 = Some CONNECTING \<and> socket_at retrying 1 = Some fresh_socket
                \<and> (Ev_open, OnOpen) \<in> set (listeners fresh_socket)
           \<longrightarrow> step example_inputs (Socket_opens 1) retrying
                 = Inr (onOpen (date_now example_inputs) (date_now example_inputs)
                         (set_readyState 1 OPEN retrying))"
    "retryDelay (onOpen 1000 1000 retrying) = 0"
    by blast+
  then show ?thesis using v f g by simp
qed

subsection \<open>The effect of closing a client that holds a socket\<close>

text \<open>
  \<open>close()\<close> detaches the four listeners from the socket, starts closing it, clears the
  handle and cancels the reconnect timer. It leaves \<open>monitorInterval\<close> and the liveness
  timer as they are.
\<close>

lemma close_with_handle:
  assumes "ws s = Some k" and "socket_at s k = Some sk"
  shows "ws (close s) = None"
    and "reconnectTimeout (close s) = None"
    and "monitorInterval (close s) = monitorInterval s"
    and "retryDelay (close s) = retryDelay s"
    and "timers (close s) =
           (case reconnectTimeout s of
              None \<Rightarrow> timers s
            | Some h \<Rightarrow> filter (\<lambda>x. fst x \<noteq> h) (timers s))"
    and "socket_at (close s) k =
           Some (sk\<lparr>listeners :=
                      remove1 (Ev_error, RetryConnection)
                        (remove1 (Ev_message, OnMessage)
                          (remove1 (Ev_open, OnOpen)
                            (remove1 (Ev_close, OnClose) (listeners sk)))),
                    readyState := (if readyState sk = CLOSED then CLOSED else CLOSING)\<rparr>)"
proof -
  from assms(2) have k: "k < length (sockets s)" "sockets s ! k = sk"
    by (simp_all add: socket_at_def split: if_splits)
  show "ws (close s) = None" "reconnectTimeout (close s) = None"
      "monitorInterval (close s) = monitorInterval s" "retryDelay (close s) = retryDelay s"
    using assms(1)
    by (cases "reconnectTimeout s";
        simp add: close_def removeEventListener_def socket_close_def clearTimeout_def Let_def)+
  show "timers (close s) =
           (case reconnectTimeout s of
              None \<Rightarrow> timers s
            | Some h \<Rightarrow> filter (\<lambda>x. fst x \<noteq> h) (timers s))"
    using assms(1)
    by (cases "reconnectTimeout s")
       (simp_all add: close_def removeEventListener_def socket_close_def clearTimeout_def Let_def)
  show "socket_at (close s) k =
           Some (sk\<lparr>listeners :=
                      remove1 (Ev_error, RetryConnection)
                        (remove1 (Ev_message, OnMessage)
                          (remove1 (Ev_open, OnOpen)
                            (remove1 (Ev_close, OnClose) (listeners sk)))),
                    readyState := (if readyState sk = CLOSED then CLOSED else CLOSING)\<rparr>)"
    using assms(1) k
    by (cases "reconnectTimeout s")
       (simp_all add: close_def removeEventListener_def socket_close_def clearTimeout_def Let_def
          update_socket_def socket_at_def)
qed

subsection \<open>The timers over runs\<close>

lemma tkeep_refl [simp]: "tkeep s s"
  by (simp add: tkeep_def)

lemma tkeep_trans: "tkeep s s1 \<Longrightarrow> tkeep s1 s2 \<Longrightarrow> tkeep s s2"
  by (simp add: tkeep_def)

lemma tkeep_bind:
  assumes "tkeep s (state_of r)" and "\<And>s1. r = Inr s1 \<Longrightarrow> tkeep s1 (state_of (g s1))"
  shows "tkeep s (state_of (case r of Inl e \<Rightarrow> Inl e | Inr s1 \<Rightarrow> g s1))"
proof (cases r)
  case (Inl e)
  then show ?thesis using assms(1) by simp
next
  case (Inr s1)
  then have "tkeep s s1" using assms(1) by simp
  moreover have "tkeep s1 (state_of (g s1))" using Inr by (rule assms(2))
  ultimately show ?thesis using Inr by (simp add: tkeep_trans)
qed

lemma tkeep_simps [simp]:
  "tkeep s (s\<lparr>ws := a\<rparr>)"
  "tkeep s (s\<lparr>lastPing := b\<rparr>)"
  "tkeep s (s\<lparr>lastMessage := c\<rparr>)"
  "tkeep s (s\<lparr>lastConnected := e\<rparr>)"
  "tkeep s (s\<lparr>channels := f\<rparr>)"
  "tkeep s (s\<lparr>filters := g\<rparr>)"
  "tkeep s (s\<lparr>retryDelay := d\<rparr>)"
  "tkeep s (s\<lparr>sockets := h\<rparr>)"
  "tkeep s (s\<lparr>suspended := i\<rparr>)"
  "tkeep s (s\<lparr>emitted := j\<rparr>)"
  "tkeep s (s\<lparr>console := k\<rparr>)"
  by (simp_all add: tkeep_def timer_inv_def)

lemma tkeep_reconnect_None: "tkeep s (s\<lparr>reconnectTimeout := None\<rparr>)"
  by (simp add: tkeep_def timer_inv_def)

lemma tkeep_update_socket: "tkeep s (update_socket k f s)"
  by (simp add: tkeep_def timer_inv_def)

lemma tkeep_ws_send: "tkeep s (state_of (ws_send f s))"
proof (cases "ws s")
  case None
  then show ?thesis by (simp add: ws_send_def)
next
  case (Some k)
  show ?thesis
  proof (cases "socket_at s k")
    case None
    then show ?thesis using Some by (simp add: ws_send_def)
  next
    case (Some sk)
    have u: "s\<lparr>sockets := (sockets s)[k := sk\<lparr>sent := sent sk @ [f]\<rparr>]\<rparr>
               = update_socket k (\<lambda>sk. sk\<lparr>sent := sent sk @ [f]\<rparr>) s"
      using Some by (simp add: update_socket_def)
    have "tkeep s (update_socket k (\<lambda>sk. sk\<lparr>sent := sent sk @ [f]\<rparr>) s)"
      by (rule tkeep_update_socket)
    then show ?thesis using Some \<open>ws s = Some k\<close> u
      by (cases "readyState sk") (simp_all add: ws_send_def)
  qed
qed

lemma tkeep_clearTimeout: "tkeep s (clearTimeout h s)"
  by (simp add: tkeep_def timer_inv_def clearTimeout_def)

lemma tkeep_timers_filter: "tkeep s (s\<lparr>timers := filter P (timers s)\<rparr>)"
  by (simp add: tkeep_def timer_inv_def)

lemma tkeep_setupConnection: "tkeep s (setupConnection s)"
  by (simp add: tkeep_def timer_inv_def setupConnection_eq)

lemma tkeep_join: "tkeep s (state_of (join uuid channel s))"
proof -
  let ?s1 = "s\<lparr>channels := set_add channel (channels s)\<rparr>"
  have "tkeep s ?s1" by simp
  moreover have "tkeep ?s1 (state_of (ws_send (Frame uuid ''join'' (P_channels [channel])) ?s1))"
    by (rule tkeep_ws_send)
  ultimately have "tkeep s (state_of (ws_send (Frame uuid ''join'' (P_channels [channel])) ?s1))"
    by (rule tkeep_trans)
  then show ?thesis by (simp add: join_def Let_def)
qed

lemma tkeep_leave: "tkeep s (state_of (leave uuid channel s))"
proof -
  let ?s1 = "s\<lparr>channels := set_delete channel (channels s)\<rparr>"
  have "tkeep s ?s1" by simp
  moreover have "tkeep ?s1 (state_of (ws_send (Frame uuid ''leave'' (P_channels [channel])) ?s1))"
    by (rule tkeep_ws_send)
  ultimately have "tkeep s (state_of (ws_send (Frame uuid ''leave'' (P_channels [channel])) ?s1))"
    by (rule tkeep_trans)
  then show ?thesis by (simp add: leave_def Let_def)
qed

lemma tkeep_filter_spec: "tkeep s (state_of (filter_spec uuid type flt s))"
proof -
  let ?s1 = "s\<lparr>filters := map_set type flt (filters s)\<rparr>"
  have "tkeep s ?s1" by simp
  moreover have "tkeep ?s1 (state_of (ws_send (Frame uuid ''filter'' (P_filter type flt)) ?s1))"
    by (rule tkeep_ws_send)
  ultimately have "tkeep s (state_of (ws_send (Frame uuid ''filter'' (P_filter type flt)) ?s1))"
    by (rule tkeep_trans)
  then show ?thesis by (simp add: filter_spec_def Let_def)
qed

lemma tkeep_removeEventListener: "tkeep s (removeEventListener k ev l s)"
  unfolding removeEventListener_def by (rule tkeep_update_socket)

lemma tkeep_socket_close: "tkeep s (socket_close k s)"
  unfolding socket_close_def by (rule tkeep_update_socket)

lemma tkeep_set_readyState: "tkeep s (set_readyState k rs s)"
  unfolding set_readyState_def by (rule tkeep_update_socket)

lemma tkeep_cancel_reconnect:
  "tkeep s (case reconnectTimeout s of
              None \<Rightarrow> s
            | Some h \<Rightarrow> (clearTimeout h s)\<lparr>reconnectTimeout := None\<rparr>)"
proof (cases "reconnectTimeout s")
  case None
  then show ?thesis by simp
next
  case (Some h)
  have "tkeep s (clearTimeout h s)" by (rule tkeep_clearTimeout)
  moreover have "tkeep (clearTimeout h s) ((clearTimeout h s)\<lparr>reconnectTimeout := None\<rparr>)"
    by (rule tkeep_reconnect_None)
  ultimately show ?thesis using Some by (simp add: tkeep_trans)
qed

lemma tkeep_close: "tkeep s (close s)"
proof (cases "ws s")
  case None
  then show ?thesis by (simp add: close_def)
next
  case (Some k)
  let ?s1 = "removeEventListener k Ev_close OnClose s"
  let ?s2 = "removeEventListener k Ev_open OnOpen ?s1"
  let ?s3 = "removeEventListener k Ev_message OnMessage ?s2"
  let ?s4 = "removeEventListener k Ev_error RetryConnection ?s3"
  let ?s5 = "socket_close k ?s4"
  let ?s6 = "?s5\<lparr>ws := None\<rparr>"
  have "tkeep s ?s4"
    by (intro tkeep_trans [OF _ tkeep_removeEventListener] tkeep_removeEventListener)
  then have "tkeep s ?s5" by (rule tkeep_trans) (rule tkeep_socket_close)
  then have "tkeep s ?s6" by (rule tkeep_trans) simp
  then have "tkeep s (case reconnectTimeout ?s6 of
              None \<Rightarrow> ?s6
            | Some h \<Rightarrow> (clearTimeout h ?s6)\<lparr>reconnectTimeout := None\<rparr>)"
    by (rule tkeep_trans) (rule tkeep_cancel_reconnect)
  then show ?thesis using Some by (simp add: close_def Let_def)
qed

lemma tkeep_open_ws: "tkeep s (open_ws s)"
proof (cases "ws s")
  case (Some k)
  then show ?thesis by (simp add: open_ws_def)
next
  case None
  have "tkeep s (case reconnectTimeout (setupConnection s) of
              None \<Rightarrow> setupConnection s
            | Some h \<Rightarrow> (clearTimeout h (setupConnection s))\<lparr>reconnectTimeout := None\<rparr>)"
    by (rule tkeep_trans [OF tkeep_setupConnection tkeep_cancel_reconnect])
  then show ?thesis using None by (simp add: open_ws_def Let_def)
qed

lemma tkeep_monitorConnection: "tkeep s (monitorConnection s)"
proof (cases "monitorInterval s")
  case None
  then show ?thesis
    by (auto simp: tkeep_def timer_inv_def monitorConnection_eq less_Suc_eq)
next
  case (Some h)
  then show ?thesis
    by (auto simp: tkeep_def timer_inv_def monitorConnection_eq less_Suc_eq)
qed

lemma tkeep_if: "tkeep s a \<Longrightarrow> tkeep s b \<Longrightarrow> tkeep s (if c then a else b)"
  by simp

lemma tkeep_monitor_callback: "tkeep s (state_of (monitor_callback uuid now s))"
proof -
  have 1: "tkeep s (state_of (if ws_is_open s then ws_send (Frame uuid ''ping'' P_absent) s
                              else Inr s))"
    by (simp add: tkeep_ws_send)
  have 2: "tkeep s1 (state_of
             (let s2 =
                (if truthy_num (lastPing s1)
                    \<and> (case lastPing s1 of None \<Rightarrow> False | Some lp \<Rightarrow> lp < now - 60000)
                 then
                   let s1a = s1\<lparr>console := console s1 @ [Closing_stalled]\<rparr>
                   in if ws_is_open s1a then open_ws (close s1a) else s1a
                 else s1)
              in Inr (monitorConnection s2) :: result))" for s1
  proof -
    let ?s1a = "s1\<lparr>console := console s1 @ [Closing_stalled]\<rparr>"
    have a: "tkeep s1 ?s1a" by simp
    have "tkeep ?s1a (open_ws (close ?s1a))"
      by (rule tkeep_trans [OF tkeep_close tkeep_open_ws])
    with a have b: "tkeep s1 (open_ws (close ?s1a))" by (rule tkeep_trans)
    have "tkeep s1 (if truthy_num (lastPing s1)
                    \<and> (case lastPing s1 of None \<Rightarrow> False | Some lp \<Rightarrow> lp < now - 60000)
              then if ws_is_open ?s1a then open_ws (close ?s1a) else ?s1a
              else s1)"
      by (rule tkeep_if, rule tkeep_if, rule b, rule a, rule tkeep_refl)
    then have "tkeep s1 (monitorConnection
             (if truthy_num (lastPing s1)
                    \<and> (case lastPing s1 of None \<Rightarrow> False | Some lp \<Rightarrow> lp < now - 60000)
              then if ws_is_open ?s1a then open_ws (close ?s1a) else ?s1a
              else s1))"
      by (rule tkeep_trans) (rule tkeep_monitorConnection)
    then show ?thesis unfolding Let_def state_of.simps .
  qed
  show ?thesis unfolding monitor_callback_def by (rule tkeep_bind [OF 1 2])
qed

lemma tkeep_onMessage: "tkeep s (state_of (onMessage now dat s))"
proof (cases dat)
  case (Other_data pr)
  then show ?thesis by (simp add: onMessage_def)
next
  case (String_data pr)
  show ?thesis
  proof (cases pr)
    case Malformed
    then show ?thesis using String_data by (simp add: onMessage_def)
  next
    case Parsed_null
    then show ?thesis using String_data by (simp add: onMessage_def)
  next
    case (Parsed msg)
    let ?s1 = "s\<lparr>lastPing := Some now\<rparr>"
    let ?s2 = "if truthy_str (msg_i msg) \<and> msg_t msg \<noteq> Some ''error'' \<and> msg_t msg \<noteq> Some ''ack''
               then ?s1\<lparr>lastMessage := msg_i msg\<rparr> else ?s1"
    have 1: "tkeep s ?s1" by simp
    have "truthy_str (msg_i msg) \<Longrightarrow> msg_i msg \<noteq> Some []" by auto
    then have "tkeep ?s1 ?s2" by simp
    with 1 have 2: "tkeep s ?s2" by (rule tkeep_trans)
    then have 3: "tkeep s (?s2\<lparr>emitted := emitted ?s2 @ [msg]\<rparr>)"
      by (rule tkeep_trans) simp
    have e: "onMessage now dat s =
               (if msg_t msg = Some ''ack'' then Inr ?s2
                else Inr (?s2\<lparr>emitted := emitted ?s2 @ [msg]\<rparr>))"
      using Parsed String_data by (simp add: onMessage_def Let_def)
    show ?thesis
    proof (cases "msg_t msg = Some ''ack''")
      case True
      with e have "state_of (onMessage now dat s) = ?s2" by simp
      with 2 show ?thesis by (simp only:)
    next
      case False
      with e have "state_of (onMessage now dat s) = ?s2\<lparr>emitted := emitted ?s2 @ [msg]\<rparr>" by simp
      with 3 show ?thesis by (simp only:)
    qed
  qed
qed

lemma tkeep_send_filters: "tkeep s (state_of (send_filters uuid n fs s))"
proof (induction fs arbitrary: s n)
  case Nil
  then show ?case by simp
next
  case (Cons a fs)
  obtain type flt where a: "a = (type, flt)" by (cases a)
  have "tkeep s (state_of (case ws_send (Frame (uuid n) ''filter'' (P_filter type flt)) s of
                             Inl e \<Rightarrow> Inl e
                           | Inr s1 \<Rightarrow> send_filters uuid (Suc n) fs s1))"
    by (rule tkeep_bind) (simp_all add: tkeep_ws_send Cons.IH)
  then show ?case using a by simp
qed

lemma tkeep_joinRoomsFilter: "tkeep s (state_of (joinRoomsFilter prev uuid now now_log s))"
proof (cases "ws_is_open s")
  case False
  then show ?thesis by (simp add: joinRoomsFilter_def)
next
  case True
  have tail: "tkeep s2 (state_of
       (if replay_test (lastMessage s2) prev now (replayMaxTime s2) then
          let s3 = s2\<lparr>console := console s2 @ [Will_replay]\<rparr>
          in ws_send (Frame (uuid (Suc (length (filters s)))) ''replay''
                       (P_replay (channels s3) (lastMessage s3))) s3
        else
          Inr (s2\<lparr>console := console s2 @
                 [No_replay (case prev of
                               None \<Rightarrow> None
                             | Some p \<Rightarrow> if p \<noteq> 0 then Some (now_log - p) else None)]\<rparr>)))" for s2
  proof -
    let ?s3 = "s2\<lparr>console := console s2 @ [Will_replay]\<rparr>"
    have "tkeep s2 ?s3" by simp
    then have "tkeep s2 (state_of (ws_send (Frame (uuid (Suc (length (filters s)))) ''replay''
                       (P_replay (channels ?s3) (lastMessage ?s3))) ?s3))"
      by (rule tkeep_trans) (rule tkeep_ws_send)
    then show ?thesis by (simp add: Let_def)
  qed
  have mid: "tkeep s1 (state_of
       (case ws_send (Frame (uuid (length (filters s))) ''join'' (P_channels (channels s1))) s1 of
          Inl e \<Rightarrow> Inl e
        | Inr s2 \<Rightarrow>
            if replay_test (lastMessage s2) prev now (replayMaxTime s2) then
              let s3 = s2\<lparr>console := console s2 @ [Will_replay]\<rparr>
              in ws_send (Frame (uuid (Suc (length (filters s)))) ''replay''
                           (P_replay (channels s3) (lastMessage s3))) s3
            else
              Inr (s2\<lparr>console := console s2 @
                     [No_replay (case prev of
                                   None \<Rightarrow> None
                                 | Some p \<Rightarrow> if p \<noteq> 0 then Some (now_log - p) else None)]\<rparr>)))" for s1
    by (rule tkeep_bind) (rule tkeep_ws_send, rule tail)
  have "tkeep s (state_of
       (case send_filters uuid 0 (filters s) s of
          Inl e \<Rightarrow> Inl e
        | Inr s1 \<Rightarrow>
       (case ws_send (Frame (uuid (length (filters s))) ''join'' (P_channels (channels s1))) s1 of
          Inl e \<Rightarrow> Inl e
        | Inr s2 \<Rightarrow>
            if replay_test (lastMessage s2) prev now (replayMaxTime s2) then
              let s3 = s2\<lparr>console := console s2 @ [Will_replay]\<rparr>
              in ws_send (Frame (uuid (Suc (length (filters s)))) ''replay''
                           (P_replay (channels s3) (lastMessage s3))) s3
            else
              Inr (s2\<lparr>console := console s2 @
                     [No_replay (case prev of
                                   None \<Rightarrow> None
                                 | Some p \<Rightarrow> if p \<noteq> 0 then Some (now_log - p) else None)]\<rparr>))))"
    by (rule tkeep_bind) (rule tkeep_send_filters, rule mid)
  then show ?thesis using True by (simp add: joinRoomsFilter_def)
qed

lemma tkeep_addEventListener: "tkeep s (addEventListener k ev l s)"
  unfolding addEventListener_def by (rule tkeep_update_socket)

lemma tkeep_onOpen_resume:
  "tkeep s (state_of (onOpen_resume prev token uuid now now_log s))"
proof (cases token)
  case None
  then show ?thesis by (simp add: onOpen_resume_def tkeep_joinRoomsFilter)
next
  case (Some tok)
  show ?thesis
  proof (cases "tok = []")
    case True
    then show ?thesis using Some by (simp add: onOpen_resume_def tkeep_joinRoomsFilter)
  next
    case False
    have l: "tkeep s1 (state_of (case ws s1 of
                       None \<Rightarrow> Inl (TypeError, s1)
                     | Some k \<Rightarrow> Inr (addEventListener k Ev_message (OnMsg (uuid 0) prev) s1)))" for s1
      by (cases "ws s1") (simp_all add: tkeep_addEventListener)
    have "tkeep s (state_of (case ws_send (Frame (uuid 0) ''auth'' (P_token tok)) s of
                  Inl e \<Rightarrow> Inl e
                | Inr s1 \<Rightarrow>
                    (case ws s1 of
                       None \<Rightarrow> Inl (TypeError, s1)
                     | Some k \<Rightarrow> Inr (addEventListener k Ev_message (OnMsg (uuid 0) prev) s1))))"
      by (rule tkeep_bind) (rule tkeep_ws_send, rule l)
    then show ?thesis using Some False by (simp add: onOpen_resume_def Let_def)
  qed
qed

lemma tkeep_onMsg: "tkeep s (state_of (onMsg authId prev dat uuid now now_log s))"
proof -
  obtain pr where pr: "(case dat of String_data pr \<Rightarrow> pr | Other_data pr \<Rightarrow> pr) = pr" by simp
  show ?thesis
  proof (cases pr)
    case Malformed
    then show ?thesis using pr by (simp add: onMsg_def)
  next
    case Parsed_null
    then show ?thesis using pr by (simp add: onMsg_def)
  next
    case (Parsed msg)
    let ?s1 = "case ws s of None \<Rightarrow> s
               | Some k \<Rightarrow> removeEventListener k Ev_message (OnMsg authId prev) s"
    have "tkeep s ?s1" by (cases "ws s") (simp_all add: tkeep_removeEventListener)
    then have "tkeep s (state_of (joinRoomsFilter prev uuid now now_log ?s1))"
      by (rule tkeep_trans) (rule tkeep_joinRoomsFilter)
    then show ?thesis using Parsed pr by (simp add: onMsg_def Let_def)
  qed
qed

lemma tkeep_reconnect_callback: "tkeep s (reconnect_callback s)"
  unfolding reconnect_callback_def
  by (rule tkeep_trans [OF tkeep_reconnect_None tkeep_setupConnection])

lemma tkeep_timer_fires:
  "tkeep s (state_of (case map_of (timers s) h of
        None \<Rightarrow> Inr s
      | Some (cb, ms) \<Rightarrow>
          let s1 = s\<lparr>timers := filter (\<lambda>x. fst x \<noteq> h) (timers s)\<rparr>
          in (case cb of
                Reconnect_callback \<Rightarrow> Inr (reconnect_callback s1)
              | Monitor_callback \<Rightarrow> monitor_callback uuid now s1)))"
proof (cases "map_of (timers s) h")
  case None
  then show ?thesis by simp
next
  case (Some a)
  obtain cb ms where a: "a = (cb, ms)" by (cases a)
  let ?s1 = "s\<lparr>timers := filter (\<lambda>x. fst x \<noteq> h) (timers s)\<rparr>"
  have 1: "tkeep s ?s1" by (rule tkeep_timers_filter)
  show ?thesis
  proof (cases cb)
    case Reconnect_callback
    have "tkeep s (reconnect_callback ?s1)"
      using 1 tkeep_reconnect_callback by (rule tkeep_trans)
    then show ?thesis using Some a Reconnect_callback by (simp add: Let_def)
  next
    case Monitor_callback
    have "tkeep s (state_of (monitor_callback uuid now ?s1))"
      using 1 tkeep_monitor_callback by (rule tkeep_trans)
    then show ?thesis using Some a Monitor_callback by (simp add: Let_def)
  qed
qed

lemma tkeep_token_resolves:
  "tkeep s (state_of (onOpen_resume prev token uuid now now_log (s\<lparr>suspended := x\<rparr>)))"
proof -
  have "tkeep s (s\<lparr>suspended := x\<rparr>)" by simp
  then show ?thesis using tkeep_onOpen_resume by (rule tkeep_trans)
qed

lemma tkeep_step:
  assumes "\<forall>k. ev \<noteq> Socket_opens k" and "\<forall>k. ev \<noteq> Socket_closes k"
    and "\<forall>k. ev \<noteq> Socket_errors k" and "\<forall>k dat. ev \<noteq> Socket_message k dat"
  shows "tkeep s (state_of (step inp ev s))"
proof (cases ev)
  case (Call_join c)
  then show ?thesis by (simp add: tkeep_join)
next
  case (Call_leave c)
  then show ?thesis by (simp add: tkeep_leave)
next
  case (Call_filter t f)
  then show ?thesis by (simp add: tkeep_filter_spec)
next
  case Call_close
  then show ?thesis by (simp add: tkeep_close)
next
  case Call_open
  then show ?thesis by (simp add: tkeep_open_ws)
next
  case (Socket_opens k)
  then show ?thesis using assms by simp
next
  case (Socket_closes k)
  then show ?thesis using assms by simp
next
  case (Socket_errors k)
  then show ?thesis using assms by simp
next
  case (Socket_message k dat)
  then show ?thesis using assms by simp
next
  case (Timer_fires h)
  then show ?thesis using tkeep_timer_fires [of s h "uuid_v1 inp 0" "date_now inp"] by simp
next
  case (Token_resolves j token)
  then show ?thesis by (simp add: tkeep_token_resolves)
qed

lemma tkeep_retryConnection: "tkeep s (retryConnection r s)"
proof (cases "reconnectTimeout s")
  case None
  then show ?thesis
    by (auto simp: tkeep_def timer_inv_def retryConnection_eq less_Suc_eq)
next
  case (Some h)
  then show ?thesis
    by (auto simp: tkeep_def timer_inv_def retryConnection_eq less_Suc_eq)
qed

lemma tkeep_stop_monitor:
  "tkeep s (s\<lparr>ws := None,
          timers := (case monitorInterval s of
                       None \<Rightarrow> timers s
                     | Some h \<Rightarrow> filter (\<lambda>x. fst x \<noteq> h) (timers s)),
          monitorInterval := None\<rparr>)"
proof (cases "monitorInterval s")
  case None
  then show ?thesis by (auto simp: tkeep_def timer_inv_def)
next
  case (Some h)
  then show ?thesis by (auto simp: tkeep_def timer_inv_def)
qed

lemma tkeep_onClose: "tkeep s (onClose r s)"
  unfolding onClose_eq by (rule tkeep_trans [OF tkeep_stop_monitor tkeep_retryConnection])

lemma tkeep_onOpen: "tkeep s (onOpen now1 now2 s)"
proof -
  let ?s3 = "s\<lparr>lastConnected := Some now1, lastPing := Some now2, retryDelay := 0\<rparr>"
  have "tkeep s ?s3" by (simp add: tkeep_def timer_inv_def)
  then have 1: "tkeep s (monitorConnection ?s3)"
    by (rule tkeep_trans) (rule tkeep_monitorConnection)
  then have 2: "tkeep s ((monitorConnection ?s3)
                    \<lparr>suspended := suspended (monitorConnection ?s3) @ [lastConnected s]\<rparr>)"
    by (rule tkeep_trans) simp
  show ?thesis using 1 2 by (simp add: onOpen_eq Let_def)
qed

lemma tkeep_call_listener: "tkeep s (state_of (call_listener inp dat l s))"
proof (cases l)
  case OnOpen
  then show ?thesis by (simp add: tkeep_onOpen)
next
  case OnClose
  then show ?thesis by (simp add: tkeep_onClose)
next
  case OnMessage
  then show ?thesis by (simp add: tkeep_onMessage)
next
  case RetryConnection
  then show ?thesis by (simp add: tkeep_retryConnection)
next
  case (OnMsg a p)
  then show ?thesis by (simp add: tkeep_onMsg)
qed

lemma tkeep_call_listeners: "tkeep s (state_of (call_listeners inp dat ls s))"
proof (induction ls arbitrary: s)
  case Nil
  then show ?case by simp
next
  case (Cons l ls)
  have "tkeep s (state_of (case call_listener inp dat l s of
                             Inl e \<Rightarrow> Inl e
                           | Inr s1 \<Rightarrow> call_listeners inp dat ls s1))"
    by (rule tkeep_bind) (rule tkeep_call_listener, rule Cons.IH)
  then show ?case by simp
qed

lemma tkeep_dispatch: "tkeep s (state_of (dispatch inp k ev dat s))"
proof (cases "socket_at s k")
  case None
  then show ?thesis by (simp add: dispatch_def)
next
  case (Some sk)
  have "tkeep s (state_of (call_listeners inp dat
               (map snd (filter (\<lambda>x. fst x = ev) (listeners sk))) s))"
    by (rule tkeep_call_listeners)
  then show ?thesis using Some by (simp add: dispatch_def Let_def)
qed

lemma tkeep_dispatch_after:
  "tkeep s (state_of (dispatch inp k ev dat (set_readyState k rs s)))"
  by (rule tkeep_trans [OF tkeep_set_readyState tkeep_dispatch])

lemma tkeep_step_all: "tkeep s (state_of (step inp ev s))"
proof (cases ev)
  case (Socket_opens k)
  then show ?thesis by (simp add: tkeep_dispatch_after)
next
  case (Socket_closes k)
  then show ?thesis by (simp add: tkeep_dispatch_after)
next
  case (Socket_errors k)
  then show ?thesis by (simp add: tkeep_dispatch_after)
next
  case (Socket_message k dat)
  then show ?thesis by (simp add: tkeep_dispatch)
next
  case (Call_join c)
  then show ?thesis using tkeep_step [of ev s inp] by simp
next
  case (Call_leave c)
  then show ?thesis using tkeep_step [of ev s inp] by simp
next
  case (Call_filter t f)
  then show ?thesis using tkeep_step [of ev s inp] by simp
next
  case Call_close
  then show ?thesis using tkeep_step [of ev s inp] by simp
next
  case Call_open
  then show ?thesis using tkeep_step [of ev s inp] by simp
next
  case (Timer_fires h)
  then show ?thesis using tkeep_step [of ev s inp] by simp
next
  case (Token_resolves j token)
  then show ?thesis using tkeep_step [of ev s inp] by simp
qed

lemma run_timer_inv: "timer_inv s \<Longrightarrow> timer_inv (state_of (run tr s))"
proof (induction tr arbitrary: s)
  case Nil
  then show ?case by simp
next
  case (Cons x tr)
  obtain inp ev where x: "x = (inp, ev)" by (cases x)
  have i: "timer_inv (state_of (step inp ev s))"
    using tkeep_step_all [of s inp ev] Cons.prems by (simp add: tkeep_def)
  show ?case
  proof (cases "step inp ev s")
    case (Inl e)
    then show ?thesis using i x by simp
  next
    case (Inr s1)
    then have "timer_inv s1" using i by simp
    then have "timer_inv (state_of (run tr s1))" by (rule Cons.IH)
    then show ?thesis using Inr x by simp
  qed
qed

lemma timer_inv_constructor: "timer_inv (constructor m)"
  by (simp add: timer_inv_def constructor_def)

lemma retryConnection_keeps_monitor_timers:
  assumes "timer_inv s"
  shows "filter (\<lambda>x. fst (snd x) = Monitor_callback) (timers (retryConnection r s))
           = filter (\<lambda>x. fst (snd x) = Monitor_callback) (timers s)"
proof (cases "reconnectTimeout s")
  case None
  then show ?thesis by (simp add: retryConnection_eq)
next
  case (Some h)
  have "\<forall>x \<in> set (timers s). fst (snd x) = Monitor_callback \<longrightarrow> fst x \<noteq> h"
    using assms Some by (auto simp: timer_inv_def)
  then have "filter (\<lambda>x. fst x \<noteq> h \<and> fst (snd x) = Monitor_callback) (timers s)
           = filter (\<lambda>x. fst (snd x) = Monitor_callback) (timers s)"
    by (intro filter_cong) auto
  then show ?thesis using Some by (simp add: retryConnection_eq)
qed

lemma onClose_stops_monitor_timers:
  assumes "timer_inv s"
  shows "filter (\<lambda>x. fst (snd x) = Monitor_callback) (timers (onClose r s)) = []"
proof -
  have a: "\<forall>x \<in> set (timers s). fst (snd x) = Monitor_callback \<longrightarrow> monitorInterval s = Some (fst x)"
    using assms by (simp add: timer_inv_def)
  have "\<forall>x \<in> set (timers (onClose r s)). fst (snd x) \<noteq> Monitor_callback"
    using a by (cases "monitorInterval s"; cases "reconnectTimeout s")
      (auto simp: onClose_eq retryConnection_eq)
  then show ?thesis by (simp add: filter_empty_conv)
qed

lemma retryConnection_exact:
  "retryConnection r s =
     s\<lparr>timers := filter (\<lambda>x. Some (fst x) \<noteq> reconnectTimeout s) (timers s)
                 @ [(timer_count s, Reconnect_callback, retryDelay s * 1000)],
       timer_count := Suc (timer_count s),
       reconnectTimeout := Some (timer_count s),
       retryDelay := min 60 (retryDelay s + (\<lfloor>times_double r 6\<rfloor> + 5))\<rparr>"
  by (cases "reconnectTimeout s") (simp_all add: retryConnection_eq)

lemma onClose_exact:
  "onClose r s =
     s\<lparr>ws := None,
       monitorInterval := None,
       timers := filter (\<lambda>x. Some (fst x) \<noteq> monitorInterval s
                               \<and> Some (fst x) \<noteq> reconnectTimeout s) (timers s)
                 @ [(timer_count s, Reconnect_callback, retryDelay s * 1000)],
       timer_count := Suc (timer_count s),
       reconnectTimeout := Some (timer_count s),
       retryDelay := min 60 (retryDelay s + (\<lfloor>times_double r 6\<rfloor> + 5))\<rparr>"
  by (cases "monitorInterval s"; cases "reconnectTimeout s")
     (simp_all add: onClose_eq retryConnection_eq conj_commute)

subsection \<open>Errors and unsolicited closes\<close>

text \<open>
  Claim C3, as a statement that the error event and the close event cause the same
  transition, fails: on the connected client the error event leaves the handle and the
  liveness timer in place, and the close event clears both.
\<close>

theorem error_is_not_close_counterexample:
  "ws (state_of (step example_inputs (Socket_errors 0) connected)) = Some 0
   \<and> monitorInterval (state_of (step example_inputs (Socket_errors 0) connected)) = Some 0
   \<and> timers (state_of (step example_inputs (Socket_errors 0) connected))
       = [(0, Monitor_callback, 30000), (1, Reconnect_callback, 0)]
   \<and> ws (state_of (step example_inputs (Socket_closes 0) connected)) = None
   \<and> monitorInterval (state_of (step example_inputs (Socket_closes 0) connected)) = None
   \<and> timers (state_of (step example_inputs (Socket_closes 0) connected))
       = [(1, Reconnect_callback, 0)]"
  by (simp add: connected_eq run_defs)

text \<open>
  Claim C3, amended. A new socket has \<open>onClose\<close> as its only listener for the close
  event and \<open>retryConnection\<close> as its only listener for the error event. In every state
  a run reaches, \<open>retryConnection\<close> changes nothing but the reconnect timer, the counter
  of handles, \<open>reconnectTimeout\<close> and the delay: the handle, the sockets,
  \<open>monitorInterval\<close> and the pending liveness timers are as before. \<open>onClose\<close> does
  the same and also clears the handle and \<open>monitorInterval\<close> and leaves no liveness
  timer pending. Both schedule a reconnect attempt by the backoff policy: the previous
  reconnect timer is cancelled, a new one is set after the current delay, and the delay
  grows by the floor of the double product \<open>Math.random() * 6\<close>, plus 5, capped at 60.
\<close>

theorem error_and_close_transitions:
  assumes "s = state_of (run tr (constructor m))"
  shows
  "socket_at (setupConnection s) (length (sockets s)) = Some fresh_socket
   \<and> call_listeners inp dat (map snd (filter (\<lambda>x. fst x = Ev_close) (listeners fresh_socket))) s
       = Inr (onClose (math_random inp) s)
   \<and> call_listeners inp dat (map snd (filter (\<lambda>x. fst x = Ev_error) (listeners fresh_socket))) s
       = Inr (retryConnection (math_random inp) s)
   \<and> retryConnection r s =
       s\<lparr>timers := filter (\<lambda>x. Some (fst x) \<noteq> reconnectTimeout s) (timers s)
                   @ [(timer_count s, Reconnect_callback, retryDelay s * 1000)],
         timer_count := Suc (timer_count s),
         reconnectTimeout := Some (timer_count s),
         retryDelay := min 60 (retryDelay s + (\<lfloor>times_double r 6\<rfloor> + 5))\<rparr>
   \<and> onClose r s =
       s\<lparr>ws := None,
         monitorInterval := None,
         timers := filter (\<lambda>x. Some (fst x) \<noteq> monitorInterval s
                                 \<and> Some (fst x) \<noteq> reconnectTimeout s) (timers s)
                   @ [(timer_count s, Reconnect_callback, retryDelay s * 1000)],
         timer_count := Suc (timer_count s),
         reconnectTimeout := Some (timer_count s),
         retryDelay := min 60 (retryDelay s + (\<lfloor>times_double r 6\<rfloor> + 5))\<rparr>
   \<and> ws (retryConnection r s) = ws s
   \<and> sockets (retryConnection r s) = sockets s
   \<and> monitorInterval (retryConnection r s) = monitorInterval s
   \<and> filter (\<lambda>x. fst (snd x) = Monitor_callback) (timers (retryConnection r s))
       = filter (\<lambda>x. fst (snd x) = Monitor_callback) (timers s)
   \<and> ws (onClose r s) = None
   \<and> monitorInterval (onClose r s) = None
   \<and> filter (\<lambda>x. fst (snd x) = Monitor_callback) (timers (onClose r s)) = []
   \<and> (\<forall>f \<in> {onClose, retryConnection}.
         reconnectTimeout (f r s) = Some (timer_count s)
         \<and> last (timers (f r s)) = (timer_count s, Reconnect_callback, retryDelay s * 1000)
         \<and> (\<forall>h cb ms. reconnectTimeout s = Some h \<and> h \<noteq> timer_count s
                \<longrightarrow> (h, cb, ms) \<notin> set (timers (f r s)))
         \<and> retryDelay (f r s) = min 60 (retryDelay s + (\<lfloor>times_double r 6\<rfloor> + 5)))"
proof -
  have t: "timer_inv s"
    unfolding assms using timer_inv_constructor by (rule run_timer_inv)
  have 1: "socket_at (setupConnection s) (length (sockets s)) = Some fresh_socket"
    by (simp add: setupConnection_eq socket_at_def)
  have 2: "call_listeners inp dat (map snd (filter (\<lambda>x. fst x = Ev_close) (listeners fresh_socket))) s
       = Inr (onClose (math_random inp) s)"
     "call_listeners inp dat (map snd (filter (\<lambda>x. fst x = Ev_error) (listeners fresh_socket))) s
       = Inr (retryConnection (math_random inp) s)"
    by (simp_all add: fresh_socket_def)
  have 3: "ws (onClose r s) = None" "monitorInterval (onClose r s) = None"
     "ws (retryConnection r s) = ws s" "monitorInterval (retryConnection r s) = monitorInterval s"
     "sockets (retryConnection r s) = sockets s"
    by (simp_all add: onClose_eq retryConnection_eq)
  have 4: "filter (\<lambda>x. fst (snd x) = Monitor_callback) (timers (retryConnection r s))
       = filter (\<lambda>x. fst (snd x) = Monitor_callback) (timers s)"
    using t by (rule retryConnection_keeps_monitor_timers)
  have 5: "filter (\<lambda>x. fst (snd x) = Monitor_callback) (timers (onClose r s)) = []"
    using t by (rule onClose_stops_monitor_timers)
  have 6: "reconnectTimeout (retryConnection r s) = Some (timer_count s)
         \<and> last (timers (retryConnection r s)) = (timer_count s, Reconnect_callback, retryDelay s * 1000)
         \<and> (\<forall>h cb ms. reconnectTimeout s = Some h \<and> h \<noteq> timer_count s
                \<longrightarrow> (h, cb, ms) \<notin> set (timers (retryConnection r s)))
         \<and> retryDelay (retryConnection r s) = min 60 (retryDelay s + (\<lfloor>times_double r 6\<rfloor> + 5))"
    by (auto simp: retryConnection_eq split: option.splits)
  have 7: "reconnectTimeout (onClose r s) = Some (timer_count s)
         \<and> last (timers (onClose r s)) = (timer_count s, Reconnect_callback, retryDelay s * 1000)
         \<and> (\<forall>h cb ms. reconnectTimeout s = Some h \<and> h \<noteq> timer_count s
                \<longrightarrow> (h, cb, ms) \<notin> set (timers (onClose r s)))
         \<and> retryDelay (onClose r s) = min 60 (retryDelay s + (\<lfloor>times_double r 6\<rfloor> + 5))"
    by (auto simp: onClose_eq retryConnection_eq split: option.splits)
  have 8: "\<forall>f \<in> {onClose, retryConnection}.
         reconnectTimeout (f r s) = Some (timer_count s)
         \<and> last (timers (f r s)) = (timer_count s, Reconnect_callback, retryDelay s * 1000)
         \<and> (\<forall>h cb ms. reconnectTimeout s = Some h \<and> h \<noteq> timer_count s
                \<longrightarrow> (h, cb, ms) \<notin> set (timers (f r s)))
         \<and> retryDelay (f r s) = min 60 (retryDelay s + (\<lfloor>times_double r 6\<rfloor> + 5))"
    using 6 7 by simp
  show ?thesis
    by (intro conjI 1 2 3 4 5 8 retryConnection_exact onClose_exact)
qed

theorem error_and_close_transitions_witness:
  "monitorInterval connected = Some 0
   \<and> timers connected = [(0, Monitor_callback, 30000)]
   \<and> ws (onClose (1/2) connected) = None
   \<and> monitorInterval (onClose (1/2) connected) = None
   \<and> filter (\<lambda>x. fst (snd x) = Monitor_callback) (timers (onClose (1/2) connected)) = []
   \<and> ws (retryConnection (1/2) connected) = Some 0
   \<and> monitorInterval (retryConnection (1/2) connected) = Some 0
   \<and> filter (\<lambda>x. fst (snd x) = Monitor_callback) (timers (retryConnection (1/2) connected))
       = [(0, Monitor_callback, 30000)]
   \<and> reconnectTimeout (onClose (1/2) connected) = Some 1
   \<and> reconnectTimeout (retryConnection (1/2) connected) = Some 1
   \<and> last (timers (onClose (1/2) connected)) = (1, Reconnect_callback, 0)
   \<and> last (timers (retryConnection (1/2) connected)) = (1, Reconnect_callback, 0)
   \<and> retryDelay (onClose (1/2) connected) = 8
   \<and> retryDelay (retryConnection (1/2) connected) = 8"
proof -
  have 1: "monitorInterval connected = Some 0" "ws connected = Some 0"
      "timer_count connected = 1" "retryDelay connected = 0"
      "timers connected = [(0, Monitor_callback, 30000)]"
    by (simp_all add: connected_eq)
  from error_and_close_transitions [OF connected_def, of example_inputs "Other_data Malformed" "1/2"]
  have "ws (onClose (1/2) connected) = None"
    "monitorInterval (onClose (1/2) connected) = None"
    "filter (\<lambda>x. fst (snd x) = Monitor_callback) (timers (onClose (1/2) connected)) = []"
    "ws (retryConnection (1/2) connected) = ws connected"
    "monitorInterval (retryConnection (1/2) connected) = monitorInterval connected"
    "filter (\<lambda>x. fst (snd x) = Monitor_callback) (timers (retryConnection (1/2) connected))
       = filter (\<lambda>x. fst (snd x) = Monitor_callback) (timers connected)"
    "reconnectTimeout (onClose (1/2) connected) = Some (timer_count connected)"
    "reconnectTimeout (retryConnection (1/2) connected) = Some (timer_count connected)"
    "last (timers (onClose (1/2) connected))
       = (timer_count connected, Reconnect_callback, retryDelay connected * 1000)"
    "last (timers (retryConnection (1/2) connected))
       = (timer_count connected, Reconnect_callback, retryDelay connected * 1000)"
    "retryDelay (onClose (1/2) connected)
       = min 60 (retryDelay connected + (\<lfloor>times_double (1/2) 6\<rfloor> + 5))"
    "retryDelay (retryConnection (1/2) connected)
       = min 60 (retryDelay connected + (\<lfloor>times_double (1/2) 6\<rfloor> + 5))"
    by blast+
  then show ?thesis using 1 by simp
qed

end
